theory Spec2Isabelle
  imports Complex_Main "HOL-Library.AList"
begin

section \<open>Values, exceptions and library functions\<close>

text \<open>
  A Python \<open>str\<close> is modelled by the bytes of its UTF-8 encoding, a \<open>bytes\<close> object by
  its bytes, both as \<open>string\<close> (a list of 8-bit characters). With that, \<open>encode('utf8')\<close>
  is the identity and \<open>decode()\<close> is a check that the bytes are well-formed UTF-8. A
  \<open>str\<close> holding a lone surrogate has no UTF-8 encoding and is outside the model.

  The values that \<open>json.loads\<close> returns are the type \<open>json\<close>. A Python \<open>dict\<close> is an
  association list in insertion order. Numbers with a fraction or an exponent (Python
  floats) are not represented.
\<close>

datatype json =
    JNull
  | JBool bool
  | JInt int
  | JStr string
  | JList "json list"
  | JObj "(string \<times> json) list"

text \<open>The exceptions the code can raise; \<open>vndbException\<close> carries its argument.\<close>

datatype error =
    vndbException json
  | NotFoundError json
  | KeyError string
  | TypeError
  | AttributeError
  | IndexError
  | UnboundLocalError string
  | JSONDecodeError
  | UnicodeDecodeError
  | AssertionError

text \<open>
  Functions of Python's standard library that the module calls and that are not part of
  the repository: \<open>json.loads\<close> (\<open>None\<close> when it raises \<open>JSONDecodeError\<close>),
  \<open>json.dumps\<close>, \<open>re.match\<close> (pattern, subject; whether there is a match), \<open>repr\<close> of
  lists and dicts, and \<open>str.lower\<close> on text that is not all ASCII (Unicode's lower-case
  mapping, on the UTF-8 encoding). Every definition below takes them as the parameter \<open>L\<close>.
\<close>

record pylib =
  json_loads :: "string \<Rightarrow> json option"
  json_dumps :: "json \<Rightarrow> string"
  re_match :: "string \<Rightarrow> string \<Rightarrow> bool"
  py_repr :: "json \<Rightarrow> string"
  str_lower :: "string \<Rightarrow> string"

subsection \<open>Bytes and strings\<close>

definition byte :: "char \<Rightarrow> nat" where
  "byte c = of_char c"

definition EOT :: char where
  "EOT = CHR 0x04"

text \<open>\<open>bytes.strip()\<close> removes ASCII whitespace: space, tab, newline, return, VT, FF.\<close>

definition is_space :: "char \<Rightarrow> bool" where
  "is_space c = (c \<in> set [CHR 0x20, CHR 0x09, CHR 0x0A, CHR 0x0D, CHR 0x0B, CHR 0x0C])"

definition strip :: "string \<Rightarrow> string" where
  "strip s = rev (dropWhile is_space (rev (dropWhile is_space s)))"

text \<open>\<open>whole.replace(b'\x04', b'')\<close>: every delimiter byte is removed.\<close>

definition remove_eot :: "string \<Rightarrow> string" where
  "remove_eot s = filter (\<lambda>c. c \<noteq> EOT) s"

text \<open>\<open>s.split(' ')\<close>: split at every single space; the result is never empty.\<close>

fun split_on :: "char \<Rightarrow> string \<Rightarrow> string list" where
  "split_on sep [] = [[]]"
| "split_on sep (c # cs) =
     (if c = sep then [] # split_on sep cs
      else (let r = split_on sep cs in (c # hd r) # tl r))"

text \<open>\<open>sep.join(xs)\<close>.\<close>

fun join :: "string \<Rightarrow> string list \<Rightarrow> string" where
  "join sep [] = []"
| "join sep [x] = x"
| "join sep (x # y # ys) = x @ sep @ join sep (y # ys)"

text \<open>
  \<open>str.lower()\<close>. On text that is all ASCII it maps the letters \<open>A\<close> to \<open>Z\<close> to \<open>a\<close> to
  \<open>z\<close> and changes nothing else. On other text it is Unicode's lower-case mapping, the
  library function \<open>str_lower\<close>.
\<close>

definition lower_char :: "char \<Rightarrow> char" where
  "lower_char c = (if 65 \<le> byte c \<and> byte c \<le> 90 then char_of (byte c + 32) else c)"

definition lower :: "pylib \<Rightarrow> string \<Rightarrow> string" where
  "lower L s = (if list_all (\<lambda>c. byte c < 128) s then map lower_char s else str_lower L s)"

text \<open>Well-formed UTF-8 (RFC 3629), which is what \<open>bytes.decode()\<close> accepts.\<close>

definition is_cont :: "char \<Rightarrow> bool" where
  "is_cont c = (128 \<le> byte c \<and> byte c < 192)"

fun utf8_valid :: "string \<Rightarrow> bool" where
  "utf8_valid [] = True"
| "utf8_valid (c # cs) =
     (let b = byte c in
      if b < 128 then utf8_valid cs
      else if 194 \<le> b \<and> b < 224 then
        (case cs of c1 # r \<Rightarrow> is_cont c1 \<and> utf8_valid r | _ \<Rightarrow> False)
      else if 224 \<le> b \<and> b < 240 then
        (case cs of
           c1 # c2 # r \<Rightarrow>
             is_cont c1 \<and> is_cont c2 \<and> (if b = 224 then 160 \<le> byte c1 else True)
             \<and> (if b = 237 then byte c1 < 160 else True) \<and> utf8_valid r
         | _ \<Rightarrow> False)
      else if 240 \<le> b \<and> b < 245 then
        (case cs of
           c1 # c2 # c3 # r \<Rightarrow>
             is_cont c1 \<and> is_cont c2 \<and> is_cont c3 \<and> (if b = 240 then 144 \<le> byte c1 else True)
             \<and> (if b = 244 then byte c1 < 144 else True) \<and> utf8_valid r
         | _ \<Rightarrow> False)
      else False)"

definition decode :: "string \<Rightarrow> error + string" where
  "decode bs = (if utf8_valid bs then Inr bs else Inl UnicodeDecodeError)"

text \<open>\<open>x[k]\<close> for a \<open>str\<close> key: only a dict can be indexed by a string.\<close>

definition subscript :: "json \<Rightarrow> string \<Rightarrow> error + json" where
  "subscript x k =
     (case x of
        JObj kvs \<Rightarrow> (case map_of kvs k of None \<Rightarrow> Inl (KeyError k) | Some v \<Rightarrow> Inr v)
      | _ \<Rightarrow> Inl TypeError)"

section \<open>The connection: class VNDB\<close>

text \<open>
  The state of a \<open>VNDB\<close> object and of the world it talks to. \<open>sock_recv\<close> holds the
  chunks that the successive calls \<open>self.sock.recv(4096)\<close> will return, \<open>sock_sent\<close> the
  byte strings passed to \<open>self.sock.send\<close> so far. \<open>cache_get\<close> is \<open>self.cache['get']\<close>.
  \<open>time.time()\<close> returns \<open>clock n\<close> at its \<open>n\<close>-th call, and \<open>time_calls\<close> counts the calls
  made. A time is the value of a Python \<open>float\<close>, a finite double, as a real number;
  \<open>cachetime\<close> is the value of that attribute as a \<open>float\<close> (720 after \<open>__init__\<close>).
  A computation returns \<open>None\<close> when it never returns (a \<open>recv\<close> that blocks for ever, or
  that returns the empty string for ever on a closed socket), and otherwise the
  exception raised (\<open>Inl\<close>) or the value returned (\<open>Inr\<close>), with the new state.
\<close>

record cache_item =
  time :: real
  query :: string
  results :: json

record vndb =
  sock_recv :: "string list"
  sock_sent :: "string list"
  cache_get :: "cache_item list"
  cachetime :: real
  clock :: "nat \<Rightarrow> real"
  time_calls :: nat

text \<open>
  \<open>sendCommand\<close>: the lowercased command, then a space and the argument when it is a
  \<open>str\<close> (as it is) or a \<open>dict\<close> (serialized); any other argument adds nothing.
\<close>

definition sendCommand :: "pylib \<Rightarrow> string \<Rightarrow> json option \<Rightarrow> vndb \<Rightarrow> vndb" where
  "sendCommand L command args w =
     (let whole = lower L command @
        (case args of
           Some (JStr s) \<Rightarrow> '' '' @ s
         | Some (JObj kvs) \<Rightarrow> '' '' @ json_dumps L (JObj kvs)
         | _ \<Rightarrow> [])
      in w\<lparr>sock_sent := sock_sent w @ [whole @ [EOT]]\<rparr>)"

text \<open>
  The loop of \<open>getRawResponse\<close>: \<open>whole\<close> grows by one chunk per \<open>recv\<close> until it holds
  a delimiter byte. With no chunk left the loop never ends.
\<close>

fun recv_loop :: "string \<Rightarrow> string list \<Rightarrow> (string \<times> string list) option" where
  "recv_loop whole [] = None"
| "recv_loop whole (c # cs) =
     (let whole' = whole @ c in
      if EOT \<in> set whole' then Some (whole', cs) else recv_loop whole' cs)"

definition getRawResponse :: "vndb \<Rightarrow> ((error + string) \<times> vndb) option" where
  "getRawResponse w =
     (case recv_loop [] (sock_recv w) of
        None \<Rightarrow> None
      | Some (whole, rest) \<Rightarrow>
          Some (decode (strip (remove_eot whole)), w\<lparr>sock_recv := rest\<rparr>))"

text \<open>
  \<open>getResponse\<close> after \<open>res = self.getRawResponse()\<close>. The local variable \<open>args\<close> is
  assigned only when \<open>res\<close> has more than one space-separated part; reading it
  unassigned raises \<open>UnboundLocalError\<close>.
\<close>

definition getResponse_of :: "pylib \<Rightarrow> string \<Rightarrow> error + (string \<times> json)" where
  "getResponse_of L res =
     (let parts = split_on CHR '' '' res;
          cmdname = hd parts
      in case (if length parts > 1
               then (case json_loads L (join '' '' (tl parts)) of
                       None \<Rightarrow> Inl JSONDecodeError
                     | Some v \<Rightarrow> Inr (Some v))
               else Inr None) of
           Inl e \<Rightarrow> Inl e
         | Inr args \<Rightarrow>
             if cmdname = ''error'' then
               (case args of
                  None \<Rightarrow> Inl (UnboundLocalError ''args'')
                | Some a \<Rightarrow>
                    (case subscript a ''id'' of
                       Inl e \<Rightarrow> Inl e
                     | Inr i \<Rightarrow>
                         if i = JStr ''throttled''
                         then Inl (vndbException
                                (JStr ''Throttled, limit of 100 commands per 10 minutes''))
                         else (case subscript a ''msg'' of
                                 Inl e \<Rightarrow> Inl e
                               | Inr m \<Rightarrow> Inl (vndbException m))))
             else (case args of
                     None \<Rightarrow> Inl (UnboundLocalError ''args'')
                   | Some a \<Rightarrow> Inr (cmdname, a)))"

definition getResponse :: "pylib \<Rightarrow> vndb \<Rightarrow> ((error + (string \<times> json)) \<times> vndb) option" where
  "getResponse L w =
     (case getRawResponse w of
        None \<Rightarrow> None
      | Some (Inl e, w') \<Rightarrow> Some (Inl e, w')
      | Some (Inr res, w') \<Rightarrow> Some (getResponse_of L res, w'))"

text \<open>
  \<open>VNDB.__init__\<close> on a socket that will deliver \<open>chunks\<close>, with the clock \<open>clk\<close>: the
  login command, one raw response, and then the empty cache and the time-to-live of
  720 seconds. Failures of \<open>connect\<close>, \<open>send\<close> and \<open>recv\<close> themselves are not modelled.
\<close>

definition VNDB_init ::
  "pylib \<Rightarrow> json \<Rightarrow> json \<Rightarrow> json option \<Rightarrow> json option \<Rightarrow> string list \<Rightarrow> (nat \<Rightarrow> real)
   \<Rightarrow> (error + vndb) option" where
  "VNDB_init L clientname clientver username password chunks clk =
     (let s = \<lparr>sock_recv = chunks, sock_sent = [], cache_get = [], cachetime = 720,
                clock = clk, time_calls = 0\<rparr>;
          basic = [(''protocol'', JInt 1), (''client'', clientname), (''clientver'', clientver)];
          login = (case (username, password) of
                     (Some u, Some p) \<Rightarrow> basic @ [(''username'', u), (''password'', p)]
                   | _ \<Rightarrow> basic)
      in case getRawResponse (sendCommand L ''login'' (Some (JObj login)) s) of
           None \<Rightarrow> None
         | Some (Inl e, s') \<Rightarrow> Some (Inl e)
         | Some (Inr res, s') \<Rightarrow>
             if take 6 res = ''error '' then
               (case json_loads L (join '' '' (tl (split_on CHR '' '' res))) of
                  None \<Rightarrow> Some (Inl JSONDecodeError)
                | Some v \<Rightarrow>
                    (case subscript v ''msg'' of
                       Inl e \<Rightarrow> Some (Inl e)
                     | Inr m \<Rightarrow> Some (Inl (vndbException m))))
             else Some (Inr s'))"

text \<open>
  The sum of two \<open>float\<close>s is their exact sum rounded to the nearest double, ties to
  the even significand (IEEE 754 binary64). \<open>pow2 e\<close> is \<open>2\<close> to the power \<open>e\<close>. A nonzero
  \<open>x\<close> with \<open>2 ^ e \<le> |x| < 2 ^ (e + 1)\<close> is rounded to a multiple of \<open>2 ^ (e - 52)\<close>, a
  significand of 53 bits, and for \<open>e\<close> below \<open>- 1022\<close> to a multiple of \<open>2 ^ (- 1074)\<close>, the
  subnormal numbers. A sum that overflows is \<open>inf\<close> in Python; here it is a number of
  magnitude \<open>2 ^ 1024\<close> or more, beyond every finite double, so that comparing it with a
  finite double gives what the comparison with \<open>inf\<close> gives.
\<close>

definition pow2 :: "int \<Rightarrow> real" where
  "pow2 e = (if 0 \<le> e then 2 ^ nat e else 1 / 2 ^ nat (- e))"

definition round_half_even :: "real \<Rightarrow> int" where
  "round_half_even y =
     (let f = \<lfloor>y\<rfloor>; r = y - of_int f in
      if r < 1 / 2 then f else if 1 / 2 < r then f + 1 else if even f then f else f + 1)"

definition round_double :: "real \<Rightarrow> real" where
  "round_double x =
     (if x = 0 then 0
      else let e = max \<lfloor>log 2 \<bar>x\<bar>\<rfloor> (- 1022);
               u = pow2 (e - 52)
           in of_int (round_half_even (x / u)) * u)"

definition float_add :: "real \<Rightarrow> real \<Rightarrow> real" where
  "float_add x y = round_double (x + y)"

text \<open>
  The scan of \<open>self.cache['get']\<close> in \<open>VNDB.get\<close>. \<open>time.time()\<close> is called once for every
  item whose query equals \<open>args\<close> (the \<open>and\<close> does not evaluate its right side
  otherwise); \<open>n\<close> counts the calls. The result is the cached value of the first item
  that passes both tests, if there is one, and the new count.
\<close>

fun cache_scan ::
  "string \<Rightarrow> real \<Rightarrow> (nat \<Rightarrow> real) \<Rightarrow> nat \<Rightarrow> cache_item list \<Rightarrow> json option \<times> nat" where
  "cache_scan args ttl clk n [] = (None, n)"
| "cache_scan args ttl clk n (item # items) =
     (if query item = args then
        (if clk n < float_add (time item) ttl then (Some (results item), Suc n)
         else cache_scan args ttl clk (Suc n) items)
      else cache_scan args ttl clk n items)"

text \<open>\<open>'{0} {1} {2} {3}'.format(type, flags, filters, options)\<close>\<close>

definition get_args :: "string \<Rightarrow> string \<Rightarrow> string \<Rightarrow> string \<Rightarrow> string" where
  "get_args type flags filters options =
     type @ '' '' @ flags @ '' '' @ filters @ '' '' @ options"

definition VNDB_get ::
  "pylib \<Rightarrow> string \<Rightarrow> string \<Rightarrow> string \<Rightarrow> string \<Rightarrow> vndb \<Rightarrow> ((error + json) \<times> vndb) option" where
  "VNDB_get L type flags filters options w =
     (let args = get_args type flags filters options in
      case cache_scan args (cachetime w) (clock w) (time_calls w) (cache_get w) of
        (Some r, n) \<Rightarrow> Some (Inr r, w\<lparr>time_calls := n\<rparr>)
      | (None, n) \<Rightarrow>
          (case getResponse L (sendCommand L ''get'' (Some (JStr args)) (w\<lparr>time_calls := n\<rparr>)) of
             None \<Rightarrow> None
           | Some (Inl e, w') \<Rightarrow> Some (Inl e, w')
           | Some (Inr (cmdname, res), w') \<Rightarrow>
               Some (Inr res,
                     w'\<lparr>cache_get := cache_get w' @
                          [\<lparr>time = clock w' (time_calls w'), query = args, results = res\<rparr>],
                        time_calls := Suc (time_calls w')\<rparr>)))"

section \<open>Python's \<open>str()\<close> of an integer\<close>

text \<open>The decimal digits of a natural number, and \<open>str(i)\<close> for an \<open>int\<close>.\<close>

fun digits :: "nat \<Rightarrow> string" where
  "digits n =
     (if n < 10 then [''0123456789'' ! n]
      else digits (n div 10) @ [''0123456789'' ! (n mod 10)])"

definition str_of_int :: "int \<Rightarrow> string" where
  "str_of_int i = (if i < 0 then CHR ''-'' # digits (nat (- i)) else digits (nat i))"

section \<open>The client: class VNDBClient\<close>

subsection \<open>Python operations on the values of a response\<close>

text \<open>Sequencing of steps that can raise: the first exception ends the computation.\<close>

definition bnd :: "error + 'a \<Rightarrow> ('a \<Rightarrow> error + 'b) \<Rightarrow> error + 'b" where
  "bnd r f = (case r of Inl e \<Rightarrow> Inl e | Inr x \<Rightarrow> f x)"

text \<open>Truth value of a value, as \<open>while more:\<close> tests it.\<close>

definition truthy :: "json \<Rightarrow> bool" where
  "truthy v =
     (case v of
        JNull \<Rightarrow> False
      | JBool b \<Rightarrow> b
      | JInt i \<Rightarrow> i \<noteq> 0
      | JStr s \<Rightarrow> s \<noteq> []
      | JList xs \<Rightarrow> xs \<noteq> []
      | JObj kvs \<Rightarrow> kvs \<noteq> [])"

text \<open>
  The characters of a \<open>str\<close>: in UTF-8, every byte that is not a continuation byte
  starts one.
\<close>

function str_chars :: "string \<Rightarrow> string list" where
  "str_chars [] = []"
| "str_chars (c # cs) = (c # takeWhile is_cont cs) # str_chars (dropWhile is_cont cs)"
  by pat_completeness auto
termination
  by (relation "measure length") (auto simp: length_dropWhile_le less_Suc_eq_le)

text \<open>\<open>len(x)\<close> and the elements that \<open>for y in x\<close> or \<open>list.extend(x)\<close> go through.\<close>

definition py_len :: "json \<Rightarrow> error + nat" where
  "py_len v =
     (case v of
        JStr s \<Rightarrow> Inr (length (str_chars s))
      | JList xs \<Rightarrow> Inr (length xs)
      | JObj kvs \<Rightarrow> Inr (length kvs)
      | _ \<Rightarrow> Inl TypeError)"

definition py_iter :: "json \<Rightarrow> error + json list" where
  "py_iter v =
     (case v of
        JStr s \<Rightarrow> Inr (map JStr (str_chars s))
      | JList xs \<Rightarrow> Inr xs
      | JObj kvs \<Rightarrow> Inr (map (\<lambda>kv. JStr (fst kv)) kvs)
      | _ \<Rightarrow> Inl TypeError)"

text \<open>\<open>isinstance(x, int)\<close> (a \<open>bool\<close> is an \<open>int\<close>), and the value of \<open>x\<close> in \<open>n + x\<close>.\<close>

definition is_int :: "json \<Rightarrow> bool" where
  "is_int v = (case v of JInt i \<Rightarrow> True | JBool b \<Rightarrow> True | _ \<Rightarrow> False)"

definition as_int :: "json \<Rightarrow> error + int" where
  "as_int v =
     (case v of
        JInt i \<Rightarrow> Inr i
      | JBool b \<Rightarrow> Inr (if b then 1 else 0)
      | _ \<Rightarrow> Inl TypeError)"

text \<open>\<open>str(x)\<close>, as an f-string formats a value.\<close>

definition py_str :: "pylib \<Rightarrow> json \<Rightarrow> string" where
  "py_str L v =
     (case v of
        JStr s \<Rightarrow> s
      | JInt i \<Rightarrow> str_of_int i
      | JBool b \<Rightarrow> (if b then ''True'' else ''False'')
      | JNull \<Rightarrow> ''None''
      | _ \<Rightarrow> py_repr L v)"

text \<open>The slice \<open>xs[:n]\<close>: a negative \<open>n\<close> counts from the end.\<close>

definition slice_to :: "'a list \<Rightarrow> int \<Rightarrow> 'a list" where
  "slice_to xs n = (if n < 0 then take (length xs - nat (- n)) xs else take (nat n) xs)"

text \<open>\<open>d.setdefault(k, v)\<close>; the assignment \<open>d[k] = v\<close> is \<open>AList.update k v\<close>.\<close>

definition setdefault :: "(string \<times> json) list \<Rightarrow> string \<Rightarrow> json \<Rightarrow> (string \<times> json) list" where
  "setdefault kvs k v = (case map_of kvs k of None \<Rightarrow> kvs @ [(k, v)] | Some _ \<Rightarrow> kvs)"

subsection \<open>The paginated fetch: VNDBClient.get\<close>

text \<open>
  A \<open>VNDBClient\<close> holds its \<open>VNDB\<close> instance and the attribute \<open>ret_dict\<close>. The instance
  is the state \<open>'w\<close> that the functions pass along, and \<open>inst_get\<close> is its method \<open>get\<close>;
  for the class \<open>VNDB\<close> that is \<open>VNDB_get L\<close>. The attributes \<open>title_fmt\<close> and \<open>date_fmt\<close>
  are used by \<open>titles\<close> only, which is not modelled.
\<close>

record 'w client =
  inst_get :: "string \<Rightarrow> string \<Rightarrow> string \<Rightarrow> string \<Rightarrow> 'w \<Rightarrow> ((error + json) \<times> 'w) option"
  self_ret_dict :: bool

text \<open>
  \<open>options_dict\<close> before the loop: the parsed \<open>options\<close>, or \<open>{"results": 25}\<close> for the
  empty string, with \<open>page\<close> set to 1 unless it is there. \<open>setdefault\<close> on a value that
  is not a dict raises \<open>AttributeError\<close>.
\<close>

definition initial_options :: "pylib \<Rightarrow> string \<Rightarrow> error + (string \<times> json) list" where
  "initial_options L options =
     bnd (if options \<noteq> [] then
            (case json_loads L options of None \<Rightarrow> Inl JSONDecodeError | Some v \<Rightarrow> Inr v)
          else Inr (JObj [(''results'', JInt 25)]))
       (\<lambda>v. case v of
              JObj kvs \<Rightarrow> Inr (setdefault kvs ''page'' (JInt 1))
            | _ \<Rightarrow> Inl AttributeError)"

text \<open>
  The body of the loop after the call of \<open>self._instance.get\<close> has returned \<open>d\<close>, in the
  order of the statements: the page number is incremented, the count \<open>N\<close> grows by
  \<open>d['num']\<close> (when \<open>ret_dict\<close> is \<open>False\<close>) or by \<open>len(d['items'])\<close>, \<open>ret\<close> is extended by
  the items or by \<open>d\<close> itself, \<open>more\<close> is \<open>d['more']\<close>, and with a limit \<open>num\<close> the flag
  \<open>more\<close> is cleared once \<open>N >= num\<close> and \<open>ret\<close> is cut to \<open>ret[:num]\<close>. The result is
  the new \<open>options_dict\<close>, \<open>N\<close> and \<open>ret\<close>, and whether the loop goes on.
\<close>

definition get_step ::
  "int option \<Rightarrow> bool \<Rightarrow> (string \<times> json) list \<Rightarrow> int \<Rightarrow> json list \<Rightarrow> json
   \<Rightarrow> error + ((string \<times> json) list \<times> int \<times> json list \<times> bool)" where
  "get_step num ret_dict options_dict N ret d =
     bnd (bnd (subscript (JObj options_dict) ''page'') as_int) (\<lambda>page.
     let options_dict' = AList.update ''page'' (JInt (page + 1)) options_dict in
     bnd (if ret_dict then bnd (subscript d ''items'') (\<lambda>items. bnd (py_len items) (\<lambda>n. Inr (int n)))
          else bnd (subscript d ''num'') as_int) (\<lambda>k.
     let N' = N + k in
     bnd (if ret_dict then bnd (subscript d ''items'') (\<lambda>items. bnd (py_iter items) (\<lambda>xs. Inr (ret @ xs)))
          else Inr (ret @ [d])) (\<lambda>ret'.
     bnd (subscript d ''more'') (\<lambda>more'.
     case num of
       None \<Rightarrow> Inr (options_dict', N', ret', truthy more')
     | Some n \<Rightarrow>
         Inr (options_dict', N', slice_to ret' n, (if N' \<ge> n then False else truthy more'))))))"

text \<open>The loop \<open>while more:\<close>; it never returns when every page says that there is more.\<close>

partial_function (option) get_loop ::
  "pylib \<Rightarrow> (string \<Rightarrow> string \<Rightarrow> string \<Rightarrow> string \<Rightarrow> 'w \<Rightarrow> ((error + json) \<times> 'w) option)
   \<Rightarrow> string \<Rightarrow> string \<Rightarrow> string \<Rightarrow> int option \<Rightarrow> bool
   \<Rightarrow> (string \<times> json) list \<Rightarrow> int \<Rightarrow> json list \<Rightarrow> 'w \<Rightarrow> ((error + json list) \<times> 'w) option" where
  "get_loop L iget type flags filters num ret_dict options_dict N ret w =
     (case iget type flags filters (json_dumps L (JObj options_dict)) w of
        None \<Rightarrow> None
      | Some (Inl e, w') \<Rightarrow> Some (Inl e, w')
      | Some (Inr d, w') \<Rightarrow>
          (case get_step num ret_dict options_dict N ret d of
             Inl e \<Rightarrow> Some (Inl e, w')
           | Inr (options_dict', N', ret', more') \<Rightarrow>
               if more'
               then get_loop L iget type flags filters num ret_dict options_dict' N' ret' w'
               else Some (Inr ret', w')))"

declare get_loop.simps [code]

definition VNDBClient_get ::
  "pylib \<Rightarrow> 'w client \<Rightarrow> string \<Rightarrow> string \<Rightarrow> string \<Rightarrow> int option \<Rightarrow> string \<Rightarrow> bool option
   \<Rightarrow> 'w \<Rightarrow> ((error + json list) \<times> 'w) option" where
  "VNDBClient_get L C filters type flags num options ret_dict w =
     (let ret_dict' = (case ret_dict of None \<Rightarrow> self_ret_dict C | Some b \<Rightarrow> b) in
      case initial_options L options of
        Inl e \<Rightarrow> Some (Inl e, w)
      | Inr options_dict \<Rightarrow>
          get_loop L (inst_get C) type flags filters num ret_dict' options_dict 0 [] w)"

subsection \<open>Searches: search, search\_vn, search\_release, search\_characters\<close>

text \<open>
  Running one call after another on the instance: the first exception, or a call that
  never returns, ends the computation. \<open>lift\<close> is a step that does not touch the
  instance.
\<close>

definition andthen ::
  "('w \<Rightarrow> ((error + 'a) \<times> 'w) option) \<Rightarrow> ('a \<Rightarrow> 'w \<Rightarrow> ((error + 'b) \<times> 'w) option)
   \<Rightarrow> 'w \<Rightarrow> ((error + 'b) \<times> 'w) option" where
  "andthen m f w =
     (case m w of
        None \<Rightarrow> None
      | Some (Inl e, w') \<Rightarrow> Some (Inl e, w')
      | Some (Inr x, w') \<Rightarrow> f x w')"

definition lift :: "error + 'a \<Rightarrow> 'w \<Rightarrow> ((error + 'a) \<times> 'w) option" where
  "lift r w = Some (r, w)"

text \<open>A loop whose body can raise, over the elements of a list.\<close>

fun map_err :: "('a \<Rightarrow> error + 'b) \<Rightarrow> 'a list \<Rightarrow> error + 'b list" where
  "map_err f [] = Inr []"
| "map_err f (x # xs) = bnd (f x) (\<lambda>y. bnd (map_err f xs) (\<lambda>ys. Inr (y # ys)))"

text \<open>
  \<open>search\<close>: the filter is the f-string \<open>({method}"{pattern}")\<close>, and the \<open>assert\<close> on
  \<open>type\<close> comes before the call of \<open>get\<close>. (Under \<open>python -O\<close> an \<open>assert\<close> is not
  executed; the model is the program as it runs without that option.)
\<close>

definition search ::
  "pylib \<Rightarrow> 'w client \<Rightarrow> json \<Rightarrow> string \<Rightarrow> string \<Rightarrow> int option \<Rightarrow> string \<Rightarrow> bool option
   \<Rightarrow> string option \<Rightarrow> 'w \<Rightarrow> ((error + json list) \<times> 'w) option" where
  \<open>search L C pattern type flags num options ret_dict method w =
     (let method' = (case method of None \<Rightarrow> ''search~'' | Some s \<Rightarrow> s) in
      if type \<in> set [''vn'', ''producer'', ''character'', ''staff'']
      then VNDBClient_get L C (''('' @ method' @ ''"'' @ py_str L pattern @ ''")'')
             type flags num options ret_dict w
      else Some (Inl AssertionError, w))\<close>


text \<open>
  \<open>PROD_DICT\<close>: a value of the table is a list of strings, compared with \<open>==\<close>, and of
  functions that apply \<open>re.match\<close> with a fixed pattern. The first key is the three
  characters U+5E73 U+5B89 U+4EAD in UTF-8; the patterns are \<open>(\S+\s)*Lilith\<close> and
  \<open>(\S+\s)*Kaguya(\s\S+)*\<close>, with the backslash written as \<open>CHR 0x5C\<close>.
\<close>

datatype matcher = Exact string | Pattern string

definition PROD_DICT :: "(string \<times> matcher list) list" where
  "PROD_DICT =
     [([CHR 0xE5, CHR 0xB9, CHR 0xB3, CHR 0xE5, CHR 0xAE, CHR 0x89, CHR 0xE4, CHR 0xBA, CHR 0xAD],
         [Exact ''Heiantei'']),
      (''Lilith'', [Pattern (''('' @ [CHR 0x5C] @ ''S+'' @ [CHR 0x5C] @ ''s)*Lilith'')]),
      (''ANIM'', [Exact ''Anim'']),
      (''Kaguya'', [Pattern (''('' @ [CHR 0x5C] @ ''S+'' @ [CHR 0x5C] @ ''s)*Kaguya(''
                              @ [CHR 0x5C] @ ''s'' @ [CHR 0x5C] @ ''S+)*'')]),
      (''ALICESOFT'', [Exact ''Alice Soft''])]"

text \<open>
  The loop \<open>for _v in v\<close>: whether it ends with the \<open>break\<close>. \<open>re.match\<close> raises
  \<open>TypeError\<close> on a value that is not a \<open>str\<close>.
\<close>

fun match_any :: "pylib \<Rightarrow> json \<Rightarrow> matcher list \<Rightarrow> error + bool" where
  "match_any L prod_name [] = Inr False"
| "match_any L prod_name (Exact s # vs) =
     (if JStr s = prod_name then Inr True else match_any L prod_name vs)"
| "match_any L prod_name (Pattern p # vs) =
     (case prod_name of
        JStr s \<Rightarrow> (if re_match L p s then Inr True else match_any L prod_name vs)
      | _ \<Rightarrow> Inl TypeError)"

text \<open>The loop \<open>for k, v in PROD_DICT.items()\<close>: the value of \<open>_represent\<close> after it.\<close>

fun represent_of :: "pylib \<Rightarrow> json \<Rightarrow> (string \<times> matcher list) list \<Rightarrow> error + string" where
  "represent_of L prod_name [] = Inr []"
| "represent_of L prod_name (kv # rest) =
     bnd (match_any L prod_name (snd kv)) (\<lambda>found.
       if found \<and> fst kv \<noteq> [] then Inr (fst kv) else represent_of L prod_name rest)"

text \<open>\<open>x[k] = v\<close>: for a dict it keeps the place of a key that is there.\<close>

definition setitem :: "json \<Rightarrow> string \<Rightarrow> json \<Rightarrow> error + json" where
  "setitem x k v = (case x of JObj kvs \<Rightarrow> Inr (JObj (AList.update k v kvs)) | _ \<Rightarrow> Inl TypeError)"

text \<open>
  The body of \<open>for prod in en['producers']\<close> and of \<open>for en in ens\<close>. The code assigns
  \<open>prod['represent']\<close> in place; the model returns the entry with the new producers.
  When \<open>en['producers']\<close> is not a list, its elements are strings (the keys of a dict,
  the characters of a \<open>str\<close>), on which \<open>prod['name']\<close> raises, or there are none.
\<close>

definition represent_prod :: "pylib \<Rightarrow> json \<Rightarrow> error + json" where
  "represent_prod L producer =
     bnd (subscript producer ''name'') (\<lambda>prod_name.
     bnd (represent_of L prod_name PROD_DICT) (\<lambda>represent.
     setitem producer ''represent'' (if represent = [] then prod_name else JStr represent)))"

definition represent_en :: "pylib \<Rightarrow> json \<Rightarrow> error + json" where
  "represent_en L en =
     bnd (subscript en ''producers'') (\<lambda>prods.
     bnd (py_iter prods) (\<lambda>ps.
     bnd (map_err (represent_prod L) ps) (\<lambda>ps'.
     case prods of JList _ \<Rightarrow> setitem en ''producers'' (JList ps') | _ \<Rightarrow> Inr en)))"

definition search_release ::
  "pylib \<Rightarrow> 'w client \<Rightarrow> json \<Rightarrow> string \<Rightarrow> int option \<Rightarrow> string \<Rightarrow> bool option
   \<Rightarrow> 'w \<Rightarrow> ((error + json list) \<times> 'w) option" where
  \<open>search_release L C pattern flags num options ret_dict =
     (let q = (if is_int pattern then ''(vn="'' @ py_str L pattern @ ''")''
               else ''(title~"'' @ py_str L pattern @ ''")'') in
      andthen (VNDBClient_get L C q ''release'' flags num options ret_dict)
        (\<lambda>ens. lift (map_err (represent_en L) ens)))\<close>


subsection \<open>The composed search: full\_search\<close>





text \<open>
  A \<open>VNDBClient\<close> as \<open>__init__\<close> makes it: the instance is a \<open>VNDB\<close> object, and
  \<open>ret_dict\<close> is \<open>True\<close>.
\<close>

definition VNDB_client :: "pylib \<Rightarrow> vndb client" where
  "VNDB_client L = \<lparr>inst_get = VNDB_get L, self_ret_dict = True\<rparr>"

section \<open>Concrete values for evaluating examples\<close>

text \<open>
  A table that agrees with \<open>json.loads\<close> on the JSON texts listed (and rejects every
  other text), and a \<open>VNDB\<close> object as \<open>__init__\<close> leaves it (empty cache, time-to-live
  720) on a socket that will deliver \<open>chunks\<close>; its clock shows \<open>n\<close> at the \<open>n\<close>-th call.
\<close>

definition example_loads :: "string \<Rightarrow> json option" where
  \<open>example_loads = map_of
     [(''{}'', JObj []),
      (''{"protocol": 1, "client": "demo", "clientver": "0.1"}'',
         JObj [(''protocol'', JInt 1), (''client'', JStr ''demo''), (''clientver'', JStr ''0.1'')]),
      (''{"id": "throttled", "msg": "Throttled"}'',
         JObj [(''id'', JStr ''throttled''), (''msg'', JStr ''Throttled'')]),
      (''{"id": "parse", "msg": "Invalid command"}'',
         JObj [(''id'', JStr ''parse''), (''msg'', JStr ''Invalid command'')]),
      (''{"id": "auth"}'', JObj [(''id'', JStr ''auth'')]),
      (''{"results":25}'', JObj [(''results'', JInt 25)]),
      (''{"results": 25, "page": 1}'', JObj [(''results'', JInt 25), (''page'', JInt 1)]),
      (''{"results": 25, "page": 2}'', JObj [(''results'', JInt 25), (''page'', JInt 2)]),
      (''{"results": 25, "page": 3}'', JObj [(''results'', JInt 25), (''page'', JInt 3)])]\<close>

text \<open>
  A serializer that agrees with \<open>json.dumps\<close> on values whose strings need no escaping
  (printable ASCII without the double quote and the backslash).
\<close>

fun example_dumps :: "json \<Rightarrow> string" where
  "example_dumps JNull = ''null''"
| "example_dumps (JBool b) = (if b then ''true'' else ''false'')"
| "example_dumps (JInt i) = str_of_int i"
| "example_dumps (JStr s) = [CHR 0x22] @ s @ [CHR 0x22]"
| "example_dumps (JList xs) = ''['' @ join '', '' (map example_dumps xs) @ '']''"
| "example_dumps (JObj kvs) =
     ''{'' @ join '', ''
        (map (\<lambda>kv. [CHR 0x22] @ fst kv @ [CHR 0x22] @ '': '' @ example_dumps (snd kv)) kvs)
      @ ''}''"

text \<open>
  A lower-case mapping that agrees with \<open>str.lower\<close> on text of ASCII and Latin-1
  characters: the capital letters U+00C0 to U+00DE, without the sign U+00D7, are the
  two bytes \<open>C3 80\<close> to \<open>C3 9E\<close>, and their small letters are \<open>0x20\<close> further on.
\<close>

fun example_lower :: "string \<Rightarrow> string" where
  "example_lower [] = []"
| "example_lower [c] = [lower_char c]"
| "example_lower (c # d # cs) =
     (if byte c = 195 \<and> 128 \<le> byte d \<and> byte d \<le> 158 \<and> byte d \<noteq> 151
      then c # char_of (byte d + 32) # example_lower cs
      else lower_char c # example_lower (d # cs))"

definition example_lib :: pylib where
  "example_lib =
     \<lparr>json_loads = example_loads, json_dumps = example_dumps, re_match = (\<lambda>_ _. False),
      py_repr = (\<lambda>_. []), str_lower = example_lower\<rparr>"

definition fresh :: "string list \<Rightarrow> vndb" where
  "fresh chunks =
     \<lparr>sock_recv = chunks, sock_sent = [], cache_get = [], cachetime = 720,
      clock = real, time_calls = 0\<rparr>"

text \<open>
  A cache with an expired entry for a query, an entry for a different query, and two
  entries for the first query that are still valid.
\<close>

definition example_cache :: "cache_item list" where
  "example_cache =
     [\<lparr>time = - 1000, query = ''vn basic (id=1) {}'', results = JObj [(''num'', JInt 1)]\<rparr>,
      \<lparr>time = 0, query = ''producer basic (id=1) {}'', results = JObj [(''num'', JInt 2)]\<rparr>,
      \<lparr>time = 0, query = ''vn basic (id=1) {}'', results = JObj [(''num'', JInt 3)]\<rparr>,
      \<lparr>time = 1, query = ''vn basic (id=1) {}'', results = JObj [(''num'', JInt 4)]\<rparr>]"

text \<open>
  A \<open>VNDB\<close> object whose cache holds one entry, made at \<open>boundary_time\<close>, with a clock
  that shows \<open>boundary_now\<close>; both are doubles. The
  entry is less than 720 seconds old, and the sum of its time and 720 lies half-way
  between the clock's value and the next double.
\<close>

definition boundary_time :: real where
  "boundary_time = 2 ^ 31 - 3 / 2 ^ 22"

definition boundary_now :: real where
  "boundary_now = 2 ^ 31 + 720 - 1 / 2 ^ 20"

definition boundary_clock :: "nat \<Rightarrow> real" where
  "boundary_clock n = boundary_now"

definition boundary_vndb :: vndb where
  "boundary_vndb =
     \<lparr>sock_recv = [''results {}'' @ [EOT]], sock_sent = [],
      cache_get = [\<lparr>time = boundary_time, query = ''vn basic (id=1) {}'',
                    results = JObj [(''num'', JInt 1)]\<rparr>],
      cachetime = 720, clock = boundary_clock, time_calls = 0\<rparr>"

text \<open>
  An instance that records its calls: \<open>get\<close> answers with \<open>srv\<close>, a function of the calls
  made so far and of the arguments, and appends the arguments to the record. Every
  instance that answers each call, and whose answers depend on the calls only, is of
  this form.
\<close>

type_synonym call = "string \<times> string \<times> string \<times> string"

definition recording ::
  "(call list \<Rightarrow> call \<Rightarrow> error + json) \<Rightarrow> string \<Rightarrow> string \<Rightarrow> string \<Rightarrow> string \<Rightarrow> call list
   \<Rightarrow> ((error + json) \<times> call list) option" where
  "recording srv type flags filters options calls =
     Some (srv calls (type, flags, filters, options), calls @ [(type, flags, filters, options)])"

text \<open>The arguments of the call for page \<open>i\<close>, where \<open>od\<close> is \<open>options_dict\<close> before the loop.\<close>

definition page_call ::
  "pylib \<Rightarrow> string \<Rightarrow> string \<Rightarrow> string \<Rightarrow> (string \<times> json) list \<Rightarrow> nat \<Rightarrow> call" where
  "page_call L type flags filters od i =
     (type, flags, filters, json_dumps L (JObj (AList.update ''page'' (JInt (int i)) od)))"

text \<open>
  A server with three pages of two entries each, where the pages 1 and 2 say that
  there is more: it answers with the page that the options of the call ask for. The
  client \<open>example_client\<close> has this server as its instance, and \<open>ret_dict\<close> as
  \<open>__init__\<close> sets it.
\<close>

definition example_items :: "nat \<Rightarrow> json list" where
  "example_items j = [JObj [(''id'', JInt (2 * int j - 1))], JObj [(''id'', JInt (2 * int j))]]"

definition example_page :: "nat \<Rightarrow> (string \<times> json) list" where
  "example_page j =
     [(''num'', JInt 2), (''more'', JBool (j < 3)), (''items'', JList (example_items j))]"

definition example_srv :: "call list \<Rightarrow> call \<Rightarrow> error + json" where
  "example_srv calls c =
     (case example_loads (snd (snd (snd c))) of
        Some (JObj kvs) \<Rightarrow>
          (case map_of kvs ''page'' of
             Some (JInt p) \<Rightarrow> Inr (JObj (example_page (nat p)))
           | _ \<Rightarrow> Inl (vndbException (JStr ''no page'')))
      | _ \<Rightarrow> Inl (vndbException (JStr ''parse error'')))"

definition example_client :: "call list client" where
  "example_client = \<lparr>inst_get = recording example_srv, self_ret_dict = True\<rparr>"







section \<open>Properties of the codec\<close>

lemmas eval_simps =
  EOT_def remove_eot_def strip_def is_space_def decode_def byte_def is_cont_def Let_def

lemma split_on_nonempty: "split_on sep s \<noteq> []"
  by (induction s) (auto simp: Let_def)

lemma split_on_prefix: "sep \<notin> set a \<Longrightarrow> split_on sep (a @ sep # b) = a # split_on sep b"
  by (induction a) (auto simp: Let_def)

lemma split_on_no_sep: "sep \<notin> set a \<Longrightarrow> split_on sep a = [a]"
  by (induction a) (auto simp: Let_def)

lemma join_split_on: "join [sep] (split_on sep s) = s"
proof (induction s)
  case Nil
  then show ?case by simp
next
  case (Cons c s)
  obtain x xs where r: "split_on sep s = x # xs"
    using split_on_nonempty[of sep s] by (cases "split_on sep s") auto
  show ?case
  proof (cases "c = sep")
    case True
    then show ?thesis using Cons r by simp
  next
    case False
    then show ?thesis using Cons r by (cases xs) (auto simp: Let_def)
  qed
qed

lemma recv_loop_found:
  "EOT \<notin> set acc \<Longrightarrow> EOT \<notin> set (concat pre) \<Longrightarrow> EOT \<in> set c \<Longrightarrow>
   recv_loop acc (pre @ c # post) = Some (acc @ concat pre @ c, post)"
  by (induction pre arbitrary: acc) (auto simp: Let_def)

lemma recv_loop_blocked:
  "EOT \<notin> set acc \<Longrightarrow> EOT \<notin> set (concat cs) \<Longrightarrow> recv_loop acc cs = None"
  by (induction cs arbitrary: acc) (auto simp: Let_def)

text \<open>Without a delimiter byte in what the socket delivers, the receive never returns.\<close>

lemma getRawResponse_blocks:
  "EOT \<notin> set (concat (sock_recv w)) \<Longrightarrow> getRawResponse w = None"
  using recv_loop_blocked[of "[]" "sock_recv w"] by (simp add: getRawResponse_def)

lemma getResponse_after_raw:
  "getRawResponse w = Some (Inr res, w') \<Longrightarrow> getResponse L w = Some (getResponse_of L res, w')"
  by (simp add: getResponse_def)

lemma getResponse_of_one_part:
  "CHR '' '' \<notin> set res \<Longrightarrow> getResponse_of L res = Inl (UnboundLocalError ''args'')"
  by (simp add: getResponse_of_def split_on_no_sep)

lemma getResponse_of_error:
  "getResponse_of L (''error '' @ body) =
     (case json_loads L body of
        None \<Rightarrow> Inl JSONDecodeError
      | Some a \<Rightarrow>
          (case subscript a ''id'' of
             Inl e \<Rightarrow> Inl e
           | Inr i \<Rightarrow>
               if i = JStr ''throttled''
               then Inl (vndbException (JStr ''Throttled, limit of 100 commands per 10 minutes''))
               else (case subscript a ''msg'' of Inl e \<Rightarrow> Inl e | Inr m \<Rightarrow> Inl (vndbException m))))"
proof -
  have s: "split_on CHR '' '' (''error '' @ body) = ''error'' # split_on CHR '' '' body"
    using split_on_prefix[of "CHR '' ''" "''error''" body] by simp
  have j: "join '' '' (split_on CHR '' '' body) = body"
    using join_split_on[of "CHR '' ''" body] by simp
  show ?thesis
    using split_on_nonempty[of "CHR '' ''" body]
    by (simp add: getResponse_of_def s j Let_def split: option.splits sum.splits)
qed

text \<open>
  Claim C5, as the code has it. \<open>getRawResponse\<close> reads chunks up to and including the
  first one that holds a delimiter byte. Its result is everything read, with every
  delimiter byte removed (not only a trailing one) and ASCII whitespace stripped at both
  ends, decoded. The chunks that were not read stay with the socket; the object keeps no
  buffer, so what the last chunk held after its first delimiter is part of the result.
\<close>

theorem getRawResponse_first_delimiter:
  assumes "sock_recv w = pre @ c # post"
    and "EOT \<notin> set (concat pre)"
    and "EOT \<in> set c"
  shows "getRawResponse w =
           Some (decode (strip (remove_eot (concat pre @ c))), w\<lparr>sock_recv := post\<rparr>)"
  using assms recv_loop_found[of "[]" pre c post] by (simp add: getRawResponse_def)

theorem getRawResponse_first_delimiter_witness:
  \<open>getRawResponse (fresh [''ok {"a'', ''": 1}'' @ [EOT], ''ok'' @ [EOT]])
     = Some (Inr ''ok {"a": 1}'', fresh [''ok'' @ [EOT]])\<close>
  using getRawResponse_first_delimiter[of
      \<open>fresh [''ok {"a'', ''": 1}'' @ [EOT], ''ok'' @ [EOT]]\<close>
      \<open>[''ok {"a'']\<close> \<open>''": 1}'' @ [EOT]\<close> \<open>[''ok'' @ [EOT]]\<close>]
  by (simp add: fresh_def eval_simps)

text \<open>
  Claim C5 as stated fails: when one \<open>recv\<close> delivers two frames, the bytes after the
  first delimiter are merged into the returned text, and the next receive finds nothing.
\<close>

theorem getRawResponse_merges_next_frame:
  "getRawResponse (fresh [''ok {}'' @ [EOT] @ ''error {}'' @ [EOT]])
     = Some (Inr ''ok {}error {}'', fresh [])
   \<and> getRawResponse (fresh []) = None"
  by (simp add: getRawResponse_def fresh_def eval_simps)

text \<open>
  Claim C6 fails on the code: for a response that is a single status token with no
  further text, \<open>getResponse\<close> does not return the token with an absent payload; it
  raises \<open>UnboundLocalError\<close>, because \<open>args\<close> was never assigned.
\<close>

theorem getResponse_status_only_unbound:
  assumes "getRawResponse w = Some (Inr res, w')"
    and "CHR '' '' \<notin> set res"
  shows "getResponse L w = Some (Inl (UnboundLocalError ''args''), w')"
  using assms by (simp add: getResponse_after_raw getResponse_of_one_part)

theorem getResponse_status_only_unbound_witness:
  "getResponse example_lib (fresh [''ok'' @ [EOT]])
     = Some (Inl (UnboundLocalError ''args''), fresh [])"
  using getResponse_status_only_unbound[of "fresh [''ok'' @ [EOT]]" "''ok''" "fresh []"
      example_lib]
  by (simp add: getRawResponse_def fresh_def eval_simps)

text \<open>
  Claim C7, as the code has it. For a response \<open>error <payload>\<close> whose payload is an
  object with an \<open>id\<close> field: when the id is the string \<open>throttled\<close>, \<open>getResponse\<close>
  raises \<open>vndbException\<close> with the fixed message about 100 commands per 10 minutes; for
  any other id it raises \<open>vndbException\<close> with the value of the payload's \<open>msg\<close> field,
  unchanged, when the payload has that field, and \<open>KeyError\<close> for the key \<open>msg\<close> when it
  has not. Both errors are of the one class \<open>vndbException\<close>; they differ in their
  message only.
\<close>

theorem getResponse_error_classification:
  assumes "getRawResponse w = Some (Inr (''error '' @ body), w')"
    and "json_loads L body = Some (JObj kvs)"
    and "map_of kvs ''id'' = Some i"
  shows "getResponse L w =
           Some (Inl (if i = JStr ''throttled''
                      then vndbException (JStr ''Throttled, limit of 100 commands per 10 minutes'')
                      else (case map_of kvs ''msg'' of
                              Some m \<Rightarrow> vndbException m
                            | None \<Rightarrow> KeyError ''msg'')), w')"
proof -
  have "getResponse L w = Some (getResponse_of L (''error '' @ body), w')"
    using assms(1) by (rule getResponse_after_raw)
  then show ?thesis
    unfolding getResponse_of_error using assms(2,3)
    by (simp add: subscript_def split: option.splits)
qed

theorem getResponse_error_classification_witness:
  \<open>getResponse example_lib (fresh [''error {"id": "throttled", "msg": "Throttled"}'' @ [EOT]])
     = Some (Inl (vndbException (JStr ''Throttled, limit of 100 commands per 10 minutes'')),
             fresh [])
   \<and> getResponse example_lib (fresh [''error {"id": "parse", "msg": "Invalid command"}'' @ [EOT]])
     = Some (Inl (vndbException (JStr ''Invalid command'')), fresh [])\<close>
  using getResponse_error_classification[of
      \<open>fresh [''error {"id": "throttled", "msg": "Throttled"}'' @ [EOT]]\<close>
      \<open>''{"id": "throttled", "msg": "Throttled"}''\<close> \<open>fresh []\<close> example_lib
      \<open>[(''id'', JStr ''throttled''), (''msg'', JStr ''Throttled'')]\<close> \<open>JStr ''throttled''\<close>]
    getResponse_error_classification[of
      \<open>fresh [''error {"id": "parse", "msg": "Invalid command"}'' @ [EOT]]\<close>
      \<open>''{"id": "parse", "msg": "Invalid command"}''\<close> \<open>fresh []\<close> example_lib
      \<open>[(''id'', JStr ''parse''), (''msg'', JStr ''Invalid command'')]\<close> \<open>JStr ''parse''\<close>]
  by (simp add: getRawResponse_def fresh_def eval_simps example_lib_def example_loads_def)

text \<open>
  Claim C7 as stated fails for a payload that has an \<open>id\<close> other than \<open>throttled\<close> and
  no \<open>msg\<close> field: \<open>getResponse\<close> raises \<open>KeyError\<close>, not a server error with a message.
\<close>

theorem getResponse_error_without_msg:
  \<open>getResponse example_lib (fresh [''error {"id": "auth"}'' @ [EOT]])
     = Some (Inl (KeyError ''msg''), fresh [])\<close>
  by (simp add: getResponse_def getRawResponse_def getResponse_of_def subscript_def fresh_def
      eval_simps example_lib_def example_loads_def)

text \<open>
  Claim C8, as the code has it. For a response \<open>error <payload>\<close> whose payload is an
  object with no \<open>id\<close> field (in particular one with neither \<open>id\<close> nor \<open>msg\<close>),
  \<open>getResponse\<close> raises \<open>KeyError\<close> for the key \<open>id\<close>; no \<open>vndbException\<close> with a
  generic message is made.
\<close>

theorem getResponse_error_without_id:
  assumes "getRawResponse w = Some (Inr (''error '' @ body), w')"
    and "json_loads L body = Some (JObj kvs)"
    and "map_of kvs ''id'' = None"
  shows "getResponse L w = Some (Inl (KeyError ''id''), w')"
proof -
  have "getResponse L w = Some (getResponse_of L (''error '' @ body), w')"
    using assms(1) by (rule getResponse_after_raw)
  then show ?thesis
    unfolding getResponse_of_error using assms(2,3) by (simp add: subscript_def)
qed

theorem getResponse_error_without_id_witness:
  "getResponse example_lib (fresh [''error {}'' @ [EOT], ''ok''])
     = Some (Inl (KeyError ''id''), fresh [''ok''])"
  using getResponse_error_without_id[of "fresh [''error {}'' @ [EOT], ''ok'']" "''{}''"
      "fresh [''ok'']" example_lib "[]"]
  by (simp add: getRawResponse_def fresh_def eval_simps example_lib_def example_loads_def)

text \<open>
  Claim C8 as stated fails: the error response with the empty object as payload makes
  \<open>getResponse\<close> raise \<open>KeyError\<close>, not a \<open>vndbException\<close>.
\<close>

theorem getResponse_empty_error_payload:
  "getResponse example_lib (fresh [''error {}'' @ [EOT]]) = Some (Inl (KeyError ''id''), fresh [])"
  by (simp add: getResponse_def getRawResponse_def getResponse_of_def subscript_def fresh_def
      eval_simps example_lib_def example_loads_def)

section \<open>Properties of the cache\<close>

lemma pow2_powr: "pow2 e = 2 powr (of_int e)"
  by (simp add: pow2_def powr_real_of_int divide_inverse)

lemma round_half_even_of_int: "round_half_even (of_int n) = n"
  by (simp add: round_half_even_def)

lemma round_double_exp:
  assumes "x \<noteq> 0" and "pow2 e \<le> \<bar>x\<bar>" and "\<bar>x\<bar> < pow2 (e + 1)" and "- 1022 \<le> e"
  shows "round_double x = of_int (round_half_even (x / pow2 (e - 52))) * pow2 (e - 52)"
proof -
  have "\<lfloor>log 2 \<bar>x\<bar>\<rfloor> = e"
    using assms(1-3) by (simp add: floor_log_eq_powr_iff pow2_powr)
  then show ?thesis using assms(1,4) by (simp add: round_double_def Let_def max_def)
qed

lemma round_double_of_int:
  assumes "\<bar>k\<bar> < 2 ^ 53"
  shows "round_double (of_int k) = of_int k"
proof (cases "k = 0")
  case True
  then show ?thesis by (simp add: round_double_def)
next
  case False
  define e where "e = \<lfloor>log 2 \<bar>real_of_int k\<bar>\<rfloor>"
  have "1 \<le> \<bar>k\<bar>" using False by simp
  then have pos: "1 \<le> \<bar>real_of_int k\<bar>" by linarith
  have e0: "0 \<le> e" unfolding e_def using pos by simp
  have "real_of_int \<bar>k\<bar> < 2 ^ 53" using assms by (metis of_int_less_numeral_power_cancel_iff)
  then have lt: "\<bar>real_of_int k\<bar> < 2 powr 53" by simp
  have "log 2 \<bar>real_of_int k\<bar> < 53" using pos lt by (simp add: log_less_iff del: powr_numeral)
  then have e52: "e \<le> 52" unfolding e_def by linarith
  define n where "n = nat (52 - e)"
  have u: "pow2 (e - 52) = 1 / 2 ^ n"
    using e52 by (auto simp: pow2_def n_def)
  have q: "real_of_int k / (1 / 2 ^ n) = of_int (k * 2 ^ n)" by simp
  have m: "max \<lfloor>log 2 \<bar>real_of_int k\<bar>\<rfloor> (- 1022) = e"
    using e0 unfolding e_def by linarith
  have nz: "real_of_int k \<noteq> 0" using False by simp
  have "round_double (of_int k) = of_int (round_half_even (of_int k / pow2 (e - 52))) * pow2 (e - 52)"
    unfolding round_double_def Let_def m using nz by (simp only: if_False)
  also have "\<dots> = of_int (k * 2 ^ n) * (1 / 2 ^ n)"
    unfolding u q round_half_even_of_int ..
  also have "\<dots> = of_int k" by simp
  finally show ?thesis .
qed


lemma float_add_ints: "\<bar>i + j\<bar> < 2 ^ 53 \<Longrightarrow> float_add (of_int i) (of_int j) = of_int (i + j)"
  using round_double_of_int[of "i + j"] by (simp add: float_add_def)

lemma boundary_sum: "float_add boundary_time 720 = boundary_now"
proof -
  let ?x = "2 ^ 31 - 3 / 2 ^ 22 + 720 :: real"
  have r: "round_double ?x = of_int (round_half_even (?x / pow2 (31 - 52))) * pow2 (31 - 52)"
    by (rule round_double_exp) (simp_all add: pow2_def)
  have u: "pow2 (31 - 52) = 1 / 2 ^ 21"
    by (simp add: pow2_def)
  have q: "?x / (1 / 2 ^ 21) = of_int 4503601137319934 + 1 / 2" by simp
  have h: "round_half_even (of_int 4503601137319934 + 1 / 2) = 4503601137319934"
    by (simp add: round_half_even_def Let_def)
  have "round_double ?x = 2 ^ 31 + 720 - 1 / 2 ^ 20"
    unfolding r u q h by simp
  then show ?thesis
    by (simp only: float_add_def boundary_time_def boundary_now_def)
qed

lemma example_sums:
  "float_add (- 1000) 720 = - 280" "float_add 0 720 = 720" "float_add 1 720 = 721"
  using float_add_ints[of "- 1000" 720] float_add_ints[of 0 720] float_add_ints[of 1 720]
  by simp_all

lemma cache_scan_filter:
  "cache_scan args ttl clk n items = cache_scan args ttl clk n (filter (\<lambda>i. query i = args) items)"
  by (induction items arbitrary: n) auto

lemma cache_scan_all_expired:
  "\<forall>i\<in>set ms. query i = args \<Longrightarrow> \<forall>j<length ms. \<not> clk (n + j) < float_add (time (ms ! j)) ttl \<Longrightarrow>
   cache_scan args ttl clk n ms = (None, n + length ms)"
proof (induction ms arbitrary: n)
  case Nil
  then show ?case by simp
next
  case (Cons m ms)
  have h0: "\<not> clk n < float_add (time m) ttl" using Cons.prems(2) by force
  have hs: "\<forall>j<length ms. \<not> clk (Suc n + j) < float_add (time (ms ! j)) ttl"
  proof (intro allI impI)
    fix j assume "j < length ms"
    then have "\<not> clk (n + Suc j) < float_add (time ((m # ms) ! Suc j)) ttl"
      using Cons.prems(2) by (metis Suc_less_eq length_Cons)
    then show "\<not> clk (Suc n + j) < float_add (time (ms ! j)) ttl" by simp
  qed
  show ?case using Cons.IH[of "Suc n"] Cons.prems(1) h0 hs by simp
qed

lemma cache_scan_first_valid:
  "\<forall>i\<in>set ms. query i = args \<Longrightarrow> k < length ms \<Longrightarrow> clk (n + k) < float_add (time (ms ! k)) ttl \<Longrightarrow>
   \<forall>j<k. \<not> clk (n + j) < float_add (time (ms ! j)) ttl \<Longrightarrow>
   cache_scan args ttl clk n ms = (Some (results (ms ! k)), n + k + 1)"
proof (induction ms arbitrary: n k)
  case Nil
  then show ?case by simp
next
  case (Cons m ms)
  show ?case
  proof (cases k)
    case 0
    then show ?thesis using Cons.prems by simp
  next
    case (Suc k')
    have h0: "\<not> clk n < float_add (time m) ttl" using Cons.prems(4) Suc by force
    have hs: "\<forall>j<k'. \<not> clk (Suc n + j) < float_add (time (ms ! j)) ttl"
    proof (intro allI impI)
      fix j assume "j < k'"
      then have "\<not> clk (n + Suc j) < float_add (time ((m # ms) ! Suc j)) ttl"
        using Cons.prems(4) Suc by (metis Suc_less_eq)
      then show "\<not> clk (Suc n + j) < float_add (time (ms ! j)) ttl" by simp
    qed
    show ?thesis
      using Cons.IH[of k' "Suc n"] Cons.prems(1,2,3) Suc h0 hs by simp
  qed
qed

lemma getResponse_frame:
  "getResponse L (w\<lparr>sock_sent := s, time_calls := t\<rparr>) =
     (case getResponse L w of None \<Rightarrow> None
      | Some (r, w1) \<Rightarrow> Some (r, w1\<lparr>sock_sent := s, time_calls := t\<rparr>))"
  by (simp add: getResponse_def getRawResponse_def split: option.splits sum.splits prod.splits)

lemma getResponse_keeps:
  "getResponse L w = Some (r, w1) \<Longrightarrow> w1 = w\<lparr>sock_recv := sock_recv w1\<rparr>"
  by (auto simp: getResponse_def getRawResponse_def split: option.splits sum.splits prod.splits)

lemma lower_get: "lower L ''get'' = ''get''"
  by (simp add: lower_def lower_char_def byte_def)

text \<open>
  Claim C3, as the code has it. \<open>args\<close> is the four arguments joined by single spaces, and
  \<open>ms\<close> are the cache entries whose query equals \<open>args\<close>, in cache order. The clock is read
  once for each of them that the scan examines. An entry is valid when the clock is
  strictly below \<open>float_add\<close> of its creation time and the time-to-live, the sum as
  floating-point addition rounds it.

  First part: the first entry of \<open>ms\<close> that is valid at the moment it is examined is
  returned; nothing is sent and the cache stays as it is.

  Second part: when no entry of \<open>ms\<close> is valid when examined, exactly one frame \<open>get args\<close> is
  sent and one response is read. When the response decodes to a status other than
  \<open>error\<close> with a payload, the payload is returned and one entry with the current time
  is appended to the cache, the older entries staying as they are. When reading the
  response raises, the exception is passed on and the cache is unchanged.
\<close>

theorem VNDB_get_cache:
  assumes "args = get_args type flags filters options"
    and "ms = filter (\<lambda>item. query item = args) (cache_get w)"
  shows "(k < length ms \<and> clock w (time_calls w + k) < float_add (time (ms ! k)) (cachetime w)
          \<and> (\<forall>j<k. \<not> clock w (time_calls w + j) < float_add (time (ms ! j)) (cachetime w))
          \<longrightarrow> VNDB_get L type flags filters options w
                = Some (Inr (results (ms ! k)), w\<lparr>time_calls := time_calls w + k + 1\<rparr>))
       \<and> ((\<forall>j<length ms. \<not> clock w (time_calls w + j) < float_add (time (ms ! j)) (cachetime w))
          \<longrightarrow> VNDB_get L type flags filters options w =
               (case getResponse L w of
                  None \<Rightarrow> None
                | Some (r, w1) \<Rightarrow>
                    (let sent = w1\<lparr>sock_sent := sock_sent w @ [''get '' @ args @ [EOT]],
                                  time_calls := time_calls w + length ms\<rparr>
                     in case r of
                          Inl e \<Rightarrow> Some (Inl e, sent)
                        | Inr (c, res) \<Rightarrow>
                            Some (Inr res,
                                  sent\<lparr>cache_get := cache_get w @
                                          [\<lparr>time = clock w (time_calls w + length ms),
                                            query = args, results = res\<rparr>],
                                       time_calls := time_calls w + length ms + 1\<rparr>))))"
proof (intro conjI impI)
  have all: "\<forall>i\<in>set ms. query i = args" using assms(2) by simp
  have va: "get_args type flags filters options = args" using assms(1) by simp
  have scan: "cache_scan args (cachetime w) (clock w) (time_calls w) (cache_get w)
              = cache_scan args (cachetime w) (clock w) (time_calls w) ms"
    using cache_scan_filter[of args _ _ _ "cache_get w"] assms(2) by simp
  {
    assume h: "k < length ms \<and> clock w (time_calls w + k) < float_add (time (ms ! k)) (cachetime w)
          \<and> (\<forall>j<k. \<not> clock w (time_calls w + j) < float_add (time (ms ! j)) (cachetime w))"
    have "cache_scan args (cachetime w) (clock w) (time_calls w) ms
            = (Some (results (ms ! k)), time_calls w + k + 1)"
      using cache_scan_first_valid[OF all, of k "clock w" "time_calls w" "cachetime w"] h by blast
    then show "VNDB_get L type flags filters options w
                = Some (Inr (results (ms ! k)), w\<lparr>time_calls := time_calls w + k + 1\<rparr>)"
      using scan by (simp add: VNDB_get_def va)
  }
  {
    assume h: "\<forall>j<length ms. \<not> clock w (time_calls w + j) < float_add (time (ms ! j)) (cachetime w)"
    have m: "cache_scan args (cachetime w) (clock w) (time_calls w) ms
            = (None, time_calls w + length ms)"
      using cache_scan_all_expired[OF all, of "clock w" "time_calls w" "cachetime w"] h by blast
    have snd: "sendCommand L ''get'' (Some (JStr args)) (w\<lparr>time_calls := time_calls w + length ms\<rparr>)
          = w\<lparr>sock_sent := sock_sent w @ [''get '' @ args @ [EOT]],
              time_calls := time_calls w + length ms\<rparr>"
      by (simp add: sendCommand_def lower_get)
    show "VNDB_get L type flags filters options w =
               (case getResponse L w of
                  None \<Rightarrow> None
                | Some (r, w1) \<Rightarrow>
                    (let sent = w1\<lparr>sock_sent := sock_sent w @ [''get '' @ args @ [EOT]],
                                  time_calls := time_calls w + length ms\<rparr>
                     in case r of
                          Inl e \<Rightarrow> Some (Inl e, sent)
                        | Inr (c, res) \<Rightarrow>
                            Some (Inr res,
                                  sent\<lparr>cache_get := cache_get w @
                                          [\<lparr>time = clock w (time_calls w + length ms),
                                            query = args, results = res\<rparr>],
                                       time_calls := time_calls w + length ms + 1\<rparr>)))"
    proof (cases "getResponse L w")
      case None
      then show ?thesis
        using scan m by (simp add: VNDB_get_def va snd getResponse_frame)
    next
      case (Some p)
      obtain r w1 where p: "p = (r, w1)" by (cases p)
      have k: "w1 = w\<lparr>sock_recv := sock_recv w1\<rparr>"
        using getResponse_keeps Some p by blast
      have c1: "cache_get w1 = cache_get w" "clock w1 = clock w"
        using k by (metis vndb.select_convs vndb.surjective vndb.update_convs)+
      show ?thesis
        using scan m Some p c1
        by (simp add: VNDB_get_def va snd getResponse_frame Let_def split: sum.splits prod.splits)
    qed
  }
qed

theorem VNDB_get_cache_witness:
  "VNDB_get example_lib ''vn'' ''basic'' ''(id=1)'' ''{}''
       ((fresh [''results {}'' @ [EOT]])\<lparr>cache_get := example_cache\<rparr>)
     = Some (Inr (JObj [(''num'', JInt 3)]),
             (fresh [''results {}'' @ [EOT]])\<lparr>cache_get := example_cache, time_calls := 2\<rparr>)
   \<and> VNDB_get example_lib ''character'' ''basic'' ''(id=1)'' ''{}''
       ((fresh [''results {}'' @ [EOT]])\<lparr>cache_get := example_cache\<rparr>)
     = Some (Inr (JObj []),
             (fresh [])\<lparr>sock_sent := [''get character basic (id=1) {}'' @ [EOT]],
                        cache_get := example_cache @
                          [\<lparr>time = 0, query = ''character basic (id=1) {}'', results = JObj []\<rparr>],
                        time_calls := 1\<rparr>)"
  using VNDB_get_cache[OF refl refl, where type = "''vn''" and flags = "''basic''"
      and filters = "''(id=1)''" and options = "''{}''" and L = example_lib and k = 1
      and w = "(fresh [''results {}'' @ [EOT]])\<lparr>cache_get := example_cache\<rparr>"]
    VNDB_get_cache[OF refl refl, where type = "''character''" and flags = "''basic''"
      and filters = "''(id=1)''" and options = "''{}''" and L = example_lib and k = 0
      and w = "(fresh [''results {}'' @ [EOT]])\<lparr>cache_get := example_cache\<rparr>"]
  by (simp add: fresh_def example_cache_def get_args_def getResponse_def getRawResponse_def
      getResponse_of_def eval_simps example_lib_def example_loads_def example_sums)

text \<open>
  Claim C3 as stated fails where the sum is rounded: the entry of \<open>boundary_vndb\<close> has
  the query of the call, and the clock is strictly below its creation time plus the
  time-to-live, but the rounded sum is the clock's value itself, so \<open>get\<close> sends the
  command and appends a second entry.
\<close>

theorem VNDB_get_rounded_expiry:
  "clock boundary_vndb 0 < time (hd (cache_get boundary_vndb)) + cachetime boundary_vndb
   \<and> query (hd (cache_get boundary_vndb)) = get_args ''vn'' ''basic'' ''(id=1)'' ''{}''
   \<and> VNDB_get example_lib ''vn'' ''basic'' ''(id=1)'' ''{}'' boundary_vndb
     = Some (Inr (JObj []),
             boundary_vndb\<lparr>sock_recv := [],
                sock_sent := [''get vn basic (id=1) {}'' @ [EOT]],
                cache_get := cache_get boundary_vndb @
                  [\<lparr>time = boundary_now, query = ''vn basic (id=1) {}'', results = JObj []\<rparr>],
                time_calls := 2\<rparr>)"
proof (intro conjI)
  show "clock boundary_vndb 0 < time (hd (cache_get boundary_vndb)) + cachetime boundary_vndb"
    by (simp add: boundary_vndb_def boundary_clock_def boundary_now_def boundary_time_def)
  show "query (hd (cache_get boundary_vndb)) = get_args ''vn'' ''basic'' ''(id=1)'' ''{}''"
    by (simp add: boundary_vndb_def get_args_def)
  show "VNDB_get example_lib ''vn'' ''basic'' ''(id=1)'' ''{}'' boundary_vndb
     = Some (Inr (JObj []),
             boundary_vndb\<lparr>sock_recv := [],
                sock_sent := [''get vn basic (id=1) {}'' @ [EOT]],
                cache_get := cache_get boundary_vndb @
                  [\<lparr>time = boundary_now, query = ''vn basic (id=1) {}'', results = JObj []\<rparr>],
                time_calls := 2\<rparr>)"
    by (simp add: boundary_vndb_def boundary_clock_def VNDB_get_def get_args_def boundary_sum
        sendCommand_def lower_def lower_char_def getResponse_def getRawResponse_def
        getResponse_of_def eval_simps example_lib_def example_loads_def)
qed

section \<open>Sending a command and decoding it again\<close>

lemma byte_char_of: "byte (char_of n) = (n::nat) mod 256"
  by (simp add: byte_def)

lemma byte_lower_char:
  "byte (lower_char c) = (if 65 \<le> byte c \<and> byte c \<le> 90 then byte c + 32 else byte c)"
  by (simp add: lower_char_def byte_char_of)

lemma byte_eq_iff: "byte a = byte b \<longleftrightarrow> a = b"
  by (simp add: byte_def)

lemma is_space_byte: "is_space c \<longleftrightarrow> byte c \<in> {32, 9, 10, 13, 11, 12}"
  by (simp add: is_space_def byte_eq_iff[symmetric]) (simp add: byte_def)

lemma utf8_valid_1: "byte c < 128 \<Longrightarrow> utf8_valid (c # cs) = utf8_valid cs"
  by (simp add: Let_def)

lemma utf8_valid_2:
  "194 \<le> byte c \<Longrightarrow> byte c < 224 \<Longrightarrow>
   utf8_valid (c # cs) = (case cs of c1 # r \<Rightarrow> is_cont c1 \<and> utf8_valid r | _ \<Rightarrow> False)"
  by (simp add: Let_def)

lemma utf8_valid_3:
  "224 \<le> byte c \<Longrightarrow> byte c < 240 \<Longrightarrow>
   utf8_valid (c # cs) =
     (case cs of
        c1 # c2 # r \<Rightarrow>
          is_cont c1 \<and> is_cont c2 \<and> (if byte c = 224 then 160 \<le> byte c1 else True)
          \<and> (if byte c = 237 then byte c1 < 160 else True) \<and> utf8_valid r
      | _ \<Rightarrow> False)"
  by (simp add: Let_def)

lemma utf8_valid_4:
  "240 \<le> byte c \<Longrightarrow> byte c < 245 \<Longrightarrow>
   utf8_valid (c # cs) =
     (case cs of
        c1 # c2 # c3 # r \<Rightarrow>
          is_cont c1 \<and> is_cont c2 \<and> is_cont c3 \<and> (if byte c = 240 then 144 \<le> byte c1 else True)
          \<and> (if byte c = 244 then byte c1 < 144 else True) \<and> utf8_valid r
      | _ \<Rightarrow> False)"
  by (simp add: Let_def)

lemma utf8_valid_0:
  "128 \<le> byte c \<Longrightarrow> byte c < 194 \<or> 245 \<le> byte c \<Longrightarrow> utf8_valid (c # cs) = False"
  by (auto simp add: Let_def)

lemma utf8_valid_append: "utf8_valid a \<Longrightarrow> utf8_valid (a @ b) = utf8_valid b"
proof (induction "length a" arbitrary: a rule: less_induct)
  case less
  show ?case
  proof (cases a)
    case Nil
    then show ?thesis by simp
  next
    case (Cons c cs)
    consider (a1) "byte c < 128" | (a2) "194 \<le> byte c" "byte c < 224"
      | (a3) "224 \<le> byte c" "byte c < 240" | (a4) "240 \<le> byte c" "byte c < 245"
      | (a0) "128 \<le> byte c" "byte c < 194 \<or> 245 \<le> byte c"
      by linarith
    then show ?thesis
    proof cases
      case a1
      have "utf8_valid cs" using less.prems Cons by (simp only: utf8_valid_1[OF a1])
      then have "utf8_valid (cs @ b) = utf8_valid b" using less.hyps[of cs] Cons by simp
      then show ?thesis unfolding Cons append_Cons by (simp only: utf8_valid_1[OF a1])
    next
      case a2
      from less.prems obtain c1 r where cs: "cs = c1 # r" and v: "is_cont c1" "utf8_valid r"
        unfolding Cons by (simp only: utf8_valid_2[OF a2]) (auto split: list.splits)
      have "utf8_valid (r @ b) = utf8_valid b" using less.hyps[of r] v Cons cs by simp
      then show ?thesis unfolding Cons cs append_Cons
        by (simp only: utf8_valid_2[OF a2] list.case v simp_thms)
    next
      case a3
      from less.prems obtain c1 c2 r where cs: "cs = c1 # c2 # r"
        and v: "is_cont c1 \<and> is_cont c2 \<and> (if byte c = 224 then 160 \<le> byte c1 else True)
          \<and> (if byte c = 237 then byte c1 < 160 else True)" "utf8_valid r"
        unfolding Cons by (simp only: utf8_valid_3[OF a3]) (auto split: list.splits)
      have h: "utf8_valid (r @ b) = utf8_valid b" using less.hyps[of r] v Cons cs by simp
      show ?thesis unfolding Cons cs append_Cons utf8_valid_3[OF a3] list.case h
        using v(1) by blast
    next
      case a4
      from less.prems obtain c1 c2 c3 r where cs: "cs = c1 # c2 # c3 # r"
        and v: "is_cont c1 \<and> is_cont c2 \<and> is_cont c3
          \<and> (if byte c = 240 then 144 \<le> byte c1 else True)
          \<and> (if byte c = 244 then byte c1 < 144 else True)" "utf8_valid r"
        unfolding Cons by (simp only: utf8_valid_4[OF a4]) (auto split: list.splits)
      have h: "utf8_valid (r @ b) = utf8_valid b" using less.hyps[of r] v Cons cs by simp
      show ?thesis unfolding Cons cs append_Cons utf8_valid_4[OF a4] list.case h
        using v(1) by blast
    next
      case a0
      then show ?thesis using less.prems Cons by (simp only: utf8_valid_0[OF a0])
    qed
  qed
qed

lemma strip_id:
  "s \<noteq> [] \<Longrightarrow> \<not> is_space (hd s) \<Longrightarrow> \<not> is_space (last s) \<Longrightarrow> strip s = s"
proof -
  assume a: "s \<noteq> []" "\<not> is_space (hd s)" "\<not> is_space (last s)"
  have 1: "dropWhile is_space s = s" using a(1,2) by (cases s) auto
  have "rev s \<noteq> []" "\<not> is_space (hd (rev s))" using a(1,3) by (simp_all add: hd_rev)
  then have 2: "dropWhile is_space (rev s) = rev s" by (cases "rev s") auto
  show ?thesis by (simp add: strip_def 1 2)
qed

lemma remove_eot_id: "EOT \<notin> set s \<Longrightarrow> remove_eot s = s"
  by (induction s) (auto simp: remove_eot_def)


lemma getRawResponse_single:
  "EOT \<in> set c \<Longrightarrow>
   getRawResponse (w\<lparr>sock_recv := [c]\<rparr>)
     = Some (decode (strip (remove_eot c)), w\<lparr>sock_recv := []\<rparr>)"
  by (simp add: getRawResponse_def)

lemma getResponse_of_pair:
  assumes "CHR '' '' \<notin> set name" and "name \<noteq> ''error''"
  shows "getResponse_of L (name @ '' '' @ p) =
           (case json_loads L p of None \<Rightarrow> Inl JSONDecodeError | Some v \<Rightarrow> Inr (name, v))"
proof -
  have s: "split_on CHR '' '' (name @ CHR '' '' # p) = name # split_on CHR '' '' p"
    using split_on_prefix[of "CHR '' ''" name p] assms(1) by simp
  have j: "join '' '' (split_on CHR '' '' p) = p"
    using join_split_on[of "CHR '' ''" p] by simp
  show ?thesis
    using split_on_nonempty[of "CHR '' ''" p] assms(2)
    by (simp add: getResponse_of_def s j Let_def split: option.splits)
qed

text \<open>
  Claim C4, as the code has it. Let \<open>name\<close> be the command in lower case, as
  \<open>str.lower\<close> gives it for any text, ASCII or not. The frame that \<open>sendCommand\<close> sends is
  \<open>name\<close>, a space, the payload text \<open>p\<close> and the delimiter, where \<open>p\<close> is a \<open>str\<close>
  argument itself or the serialization of a \<open>dict\<close> argument. When that frame is what
  the socket delivers, \<open>getResponse\<close> returns \<open>name\<close> as the status token and
  \<open>json.loads p\<close> as the payload (and raises \<open>JSONDecodeError\<close> when \<open>p\<close> is not JSON
  text). This holds when \<open>name\<close> is not empty, holds no space and no delimiter byte, does
  not start with ASCII whitespace and is not \<open>error\<close>, and for a payload text that is not
  empty, does not end in ASCII whitespace and holds no delimiter byte. So a \<open>dict\<close>
  argument is recovered wherever \<open>json.loads\<close> inverts \<open>json.dumps\<close>; a \<open>str\<close> argument is
  parsed as JSON and never returned as the string; and the command comes back in lower
  case.
\<close>

theorem sendCommand_getResponse_loopback:
  assumes "name = lower L command"
    and "name \<noteq> []" and "CHR '' '' \<notin> set name" and "EOT \<notin> set name"
    and "\<not> is_space (hd name)" and "utf8_valid name" and "name \<noteq> ''error''"
    and "a = JStr p \<or> (a = JObj kvs \<and> p = json_dumps L (JObj kvs))"
    and "p \<noteq> []" and "\<not> is_space (last p)" and "EOT \<notin> set p" and "utf8_valid p"
    and "w' = sendCommand L command (Some a) w"
  shows "sock_sent w' = sock_sent w @ [name @ '' '' @ p @ [EOT]]
       \<and> getResponse L (w'\<lparr>sock_recv := [last (sock_sent w')]\<rparr>)
           = Some (case json_loads L p of
                     None \<Rightarrow> Inl JSONDecodeError
                   | Some v \<Rightarrow> Inr (name, v),
                   w'\<lparr>sock_recv := []\<rparr>)"
proof -
  let ?whole = "name @ '' '' @ p"
  have sent: "sock_sent w' = sock_sent w @ [?whole @ [EOT]]"
    using assms(1,8,13) by (auto simp: sendCommand_def)
  have noeot: "EOT \<notin> set ?whole"
    using assms(4,11) by (auto simp: EOT_def)
  have ne: "?whole \<noteq> []" using assms(9) by simp
  have hdw: "\<not> is_space (hd ?whole)"
    using assms(2,5) by (cases name) simp_all
  have lastw: "\<not> is_space (last ?whole)" using assms(9,10) by simp
  have valid: "utf8_valid ?whole"
  proof -
    have "utf8_valid (name @ '' '')"
      using utf8_valid_append[OF assms(6), of "'' ''"] by (simp add: byte_def)
    then have "utf8_valid ((name @ '' '') @ p) = utf8_valid p"
      by (rule utf8_valid_append)
    then show ?thesis using assms(12) by simp
  qed
  have raw: "getRawResponse (w'\<lparr>sock_recv := [?whole @ [EOT]]\<rparr>)
               = Some (Inr ?whole, w'\<lparr>sock_recv := []\<rparr>)"
  proof -
    have "remove_eot (?whole @ [EOT]) = remove_eot ?whole"
      by (simp add: remove_eot_def)
    then have "remove_eot (?whole @ [EOT]) = ?whole"
      using remove_eot_id[OF noeot] by simp
    moreover have "strip ?whole = ?whole" using strip_id[OF ne hdw lastw] .
    ultimately show ?thesis
      using getRawResponse_single[of "?whole @ [EOT]" w'] valid by (simp add: decode_def)
  qed
  have "getResponse L (w'\<lparr>sock_recv := [?whole @ [EOT]]\<rparr>)
          = Some (getResponse_of L ?whole, w'\<lparr>sock_recv := []\<rparr>)"
    using raw by (rule getResponse_after_raw)
  then show ?thesis
    using sent getResponse_of_pair[OF assms(3) assms(7), of L p] by simp
qed

text \<open>
  The command \<open>Login\<close> with a \<open>dict\<close>, and a command that is not ASCII: the capital
  letter U+00C0 and \<open>B\<close>, sent as the small letter U+00E0 and \<open>b\<close>.
\<close>

theorem sendCommand_getResponse_loopback_witness:
  \<open>sock_sent (sendCommand example_lib ''Login''
       (Some (JObj [(''protocol'', JInt 1), (''client'', JStr ''demo''), (''clientver'', JStr ''0.1'')]))
       (fresh []))
     = [''login {"protocol": 1, "client": "demo", "clientver": "0.1"}'' @ [EOT]]
   \<and> getResponse example_lib
       ((fresh [''login {"protocol": 1, "client": "demo", "clientver": "0.1"}'' @ [EOT]])
          \<lparr>sock_sent := [''login {"protocol": 1, "client": "demo", "clientver": "0.1"}'' @ [EOT]]\<rparr>)
     = Some (Inr (''login'',
                  JObj [(''protocol'', JInt 1), (''client'', JStr ''demo''), (''clientver'', JStr ''0.1'')]),
             (fresh [])\<lparr>sock_sent :=
                [''login {"protocol": 1, "client": "demo", "clientver": "0.1"}'' @ [EOT]]\<rparr>)
   \<and> sock_sent (sendCommand example_lib [CHR 0xC3, CHR 0x80, CHR ''B''] (Some (JObj [])) (fresh []))
     = [[CHR 0xC3, CHR 0xA0, CHR ''b''] @ '' {}'' @ [EOT]]
   \<and> getResponse example_lib
       ((fresh [[CHR 0xC3, CHR 0xA0, CHR ''b''] @ '' {}'' @ [EOT]])
          \<lparr>sock_sent := [[CHR 0xC3, CHR 0xA0, CHR ''b''] @ '' {}'' @ [EOT]]\<rparr>)
     = Some (Inr ([CHR 0xC3, CHR 0xA0, CHR ''b''], JObj []),
             (fresh [])\<lparr>sock_sent := [[CHR 0xC3, CHR 0xA0, CHR ''b''] @ '' {}'' @ [EOT]]\<rparr>)\<close>
  using sendCommand_getResponse_loopback[where command = "''Login''" and L = example_lib
      and name = "''login''"
      and a = "JObj [(''protocol'', JInt 1), (''client'', JStr ''demo''), (''clientver'', JStr ''0.1'')]"
      and kvs = "[(''protocol'', JInt 1), (''client'', JStr ''demo''), (''clientver'', JStr ''0.1'')]"
      and p = \<open>''{"protocol": 1, "client": "demo", "clientver": "0.1"}''\<close>
      and w = "fresh []", OF _ _ _ _ _ _ _ _ _ _ _ _ refl]
    sendCommand_getResponse_loopback[where command = "[CHR 0xC3, CHR 0x80, CHR ''B'']"
      and L = example_lib and name = "[CHR 0xC3, CHR 0xA0, CHR ''b'']"
      and a = "JObj []" and kvs = "[]" and p = "''{}''"
      and w = "fresh []", OF _ _ _ _ _ _ _ _ _ _ _ _ refl]
  by (simp add: sendCommand_def fresh_def eval_simps example_lib_def example_loads_def
      lower_def lower_char_def char_of_def bit_0 str_of_int_def)

text \<open>
  Claim C4 as stated fails for \<open>str\<close> arguments: the argument of the module's own
  \<open>get\<close> commands is not JSON text, so decoding the frame raises \<open>JSONDecodeError\<close>;
  and a \<open>str\<close> that is JSON text comes back as the parsed value, not as the string. It
  also fails for a command with a capital letter, which comes back in lower case, and
  for a command with a space, whose second word is taken for the payload.
\<close>

theorem sendCommand_raw_string_not_recovered:
  "sock_sent (sendCommand example_lib ''get'' (Some (JStr ''vn basic'')) (fresh []))
     = [''get vn basic'' @ [EOT]]
   \<and> getResponse example_lib (fresh [''get vn basic'' @ [EOT]])
     = Some (Inl JSONDecodeError, fresh [])
   \<and> sock_sent (sendCommand example_lib ''get'' (Some (JStr ''{}'')) (fresh []))
     = [''get {}'' @ [EOT]]
   \<and> getResponse example_lib (fresh [''get {}'' @ [EOT]])
     = Some (Inr (''get'', JObj []), fresh [])
   \<and> sock_sent (sendCommand example_lib ''Get'' (Some (JObj [])) (fresh []))
     = [''get {}'' @ [EOT]]
   \<and> sock_sent (sendCommand example_lib ''a b'' (Some (JObj [])) (fresh []))
     = [''a b {}'' @ [EOT]]
   \<and> getResponse example_lib (fresh [''a b {}'' @ [EOT]])
     = Some (Inl JSONDecodeError, fresh [])"
  by (simp add: sendCommand_def getResponse_def getRawResponse_def getResponse_of_def fresh_def
      eval_simps example_lib_def example_loads_def lower_def lower_char_def char_of_def bit_0)

section \<open>Properties of the paginated fetch\<close>

lemma bnd_simps [simp]: "bnd (Inl e) f = Inl e" "bnd (Inr x) f = f x"
  by (simp_all add: bnd_def)

lemma update_update_same: "AList.update k v (AList.update k v' al) = AList.update k v al"
  by (induction al) auto

lemma map_of_update_same: "map_of (AList.update k v al) k = Some v"
  by (simp add: update_conv')

lemma slice_to_nonneg: "0 \<le> n \<Longrightarrow> slice_to xs n = take (nat n) xs"
  by (simp add: slice_to_def)

lemma take_take_append: "take n (take n a @ b) = take n (a @ b)"
  by (simp add: take_all_iff min_def)

lemma get_step_items:
  assumes "map_of od ''page'' = Some (JInt p)"
    and "map_of pgd ''items'' = Some (JList xs)"
    and "map_of pgd ''more'' = Some m"
  shows "get_step num True od N ret (JObj pgd) =
           Inr (AList.update ''page'' (JInt (p + 1)) od, N + int (length xs),
                (case num of None \<Rightarrow> ret @ xs | Some n \<Rightarrow> slice_to (ret @ xs) n),
                (case num of None \<Rightarrow> truthy m
                 | Some n \<Rightarrow> (if n \<le> N + int (length xs) then False else truthy m)))"
  using assms
  by (simp add: get_step_def subscript_def as_int_def py_len_def py_iter_def Let_def
      split: option.splits)

lemma get_step_raw:
  assumes "map_of od ''page'' = Some (JInt p)"
    and "map_of pgd ''num'' = Some (JInt c)"
    and "map_of pgd ''more'' = Some m"
  shows "get_step num False od N ret (JObj pgd) =
           Inr (AList.update ''page'' (JInt (p + 1)) od, N + c,
                (case num of None \<Rightarrow> ret @ [JObj pgd] | Some n \<Rightarrow> slice_to (ret @ [JObj pgd]) n),
                (case num of None \<Rightarrow> truthy m
                 | Some n \<Rightarrow> (if n \<le> N + c then False else truthy m)))"
  using assms
  by (simp add: get_step_def subscript_def as_int_def Let_def split: option.splits)


lemma upt_from: "i < j \<Longrightarrow> [i..<j] = i # [Suc i..<j]"
  by (simp add: upt_conv_Cons)

lemma get_loop_run:
  fixes cnt :: "nat \<Rightarrow> int" and elems :: "nat \<Rightarrow> json list"
  assumes cnt: "cnt = (\<lambda>l. if rd then int (length (xs l)) else c l)"
    and elems: "elems = (\<lambda>l. if rd then xs l else [JObj (pg l)])"
    and pages: "\<forall>j. i \<le> j \<and> j \<le> k \<longrightarrow>
          srv (calls @ map (page_call L type flags filters od) [i..<j])
              (page_call L type flags filters od j) = Inr (JObj (pg j))"
    and fields: "\<forall>j. i \<le> j \<and> j \<le> k \<longrightarrow>
          (if rd then map_of (pg j) ''items'' = Some (JList (xs j))
           else map_of (pg j) ''num'' = Some (JInt (c j)))
          \<and> map_of (pg j) ''more'' = Some (m j)"
    and cont: "\<forall>j. i \<le> j \<and> j < k \<longrightarrow>
          truthy (m j) \<and> (\<forall>n. num = Some n \<longrightarrow> N + sum cnt {i..j} < n)"
    and stop: "\<not> truthy (m k) \<or> (\<exists>n. num = Some n \<and> n \<le> N + sum cnt {i..k})"
    and nonneg: "\<forall>n. num = Some n \<longrightarrow> 0 \<le> n"
    and ik: "i \<le> k"
  shows "get_loop L (recording srv) type flags filters num rd
           (AList.update ''page'' (JInt (int i)) od) N ret calls
         = Some (Inr (case num of
                        None \<Rightarrow> ret @ concat (map elems [i..<Suc k])
                      | Some n \<Rightarrow> take (nat n) (ret @ concat (map elems [i..<Suc k]))),
                 calls @ map (page_call L type flags filters od) [i..<Suc k])"
  using pages fields cont stop ik
proof (induction "k - i" arbitrary: i N ret calls)
  case 0
  then have ik: "i = k" by simp
  have call: "srv calls (page_call L type flags filters od k) = Inr (JObj (pg k))"
    using "0.prems"(1) ik by force
  have f: "(if rd then map_of (pg k) ''items'' = Some (JList (xs k))
           else map_of (pg k) ''num'' = Some (JInt (c k)))" "map_of (pg k) ''more'' = Some (m k)"
    using "0.prems"(2) ik by auto
  have st: "\<not> truthy (m k) \<or> (\<exists>n. num = Some n \<and> n \<le> N + cnt k)"
    using "0.prems"(4) ik by simp
  have step: "get_step num rd (AList.update ''page'' (JInt (int k)) od) N ret (JObj (pg k))
      = Inr (AList.update ''page'' (JInt (int (Suc k))) od, N + cnt k,
             (case num of None \<Rightarrow> ret @ elems k | Some n \<Rightarrow> take (nat n) (ret @ elems k)),
             False)"
  proof (cases rd)
    case True
    then show ?thesis
      using get_step_items[of "AList.update ''page'' (JInt (int k)) od" "int k" "pg k" "xs k" "m k"
          num N ret] f st nonneg
      by (auto simp: map_of_update_same update_update_same cnt elems slice_to_nonneg
          add.commute split: option.splits)
  next
    case False
    then show ?thesis
      using get_step_raw[of "AList.update ''page'' (JInt (int k)) od" "int k" "pg k" "c k" "m k"
          num N ret] f st nonneg
      by (auto simp: map_of_update_same update_update_same cnt elems slice_to_nonneg
          add.commute split: option.splits)
  qed
  show ?case
    unfolding ik
    by (subst get_loop.simps)
      (simp add: recording_def call step page_call_def[symmetric] split: option.splits)
next
  case (Suc d)
  then have ik: "i < k" and d: "d = k - Suc i" by simp_all
  have call: "srv calls (page_call L type flags filters od i) = Inr (JObj (pg i))"
    using Suc.prems(1) ik by force
  have f: "(if rd then map_of (pg i) ''items'' = Some (JList (xs i))
           else map_of (pg i) ''num'' = Some (JInt (c i)))" "map_of (pg i) ''more'' = Some (m i)"
    using Suc.prems(2) ik by auto
  have ct: "truthy (m i)" "\<forall>n. num = Some n \<longrightarrow> N + cnt i < n"
    using Suc.prems(3) ik by force+
  have step: "get_step num rd (AList.update ''page'' (JInt (int i)) od) N ret (JObj (pg i))
      = Inr (AList.update ''page'' (JInt (int (Suc i))) od, N + cnt i,
             (case num of None \<Rightarrow> ret @ elems i | Some n \<Rightarrow> take (nat n) (ret @ elems i)),
             True)"
  proof (cases rd)
    case True
    then show ?thesis
      using get_step_items[of "AList.update ''page'' (JInt (int i)) od" "int i" "pg i" "xs i" "m i"
          num N ret] f ct nonneg
      by (auto simp: map_of_update_same update_update_same cnt elems slice_to_nonneg
          add.commute split: option.splits)
  next
    case False
    then show ?thesis
      using get_step_raw[of "AList.update ''page'' (JInt (int i)) od" "int i" "pg i" "c i" "m i"
          num N ret] f ct nonneg
      by (auto simp: map_of_update_same update_update_same cnt elems slice_to_nonneg
          add.commute split: option.splits)
  qed
  let ?calls' = "calls @ [page_call L type flags filters od i]"
  let ?ret' = "(case num of None \<Rightarrow> ret @ elems i | Some n \<Rightarrow> take (nat n) (ret @ elems i))"
  have p': "\<forall>j. Suc i \<le> j \<and> j \<le> k \<longrightarrow>
          srv (?calls' @ map (page_call L type flags filters od) [Suc i..<j])
              (page_call L type flags filters od j) = Inr (JObj (pg j))"
  proof (intro allI impI)
    fix j assume j: "Suc i \<le> j \<and> j \<le> k"
    then have "[i..<j] = i # [Suc i..<j]" by (simp add: upt_from)
    then show "srv (?calls' @ map (page_call L type flags filters od) [Suc i..<j])
              (page_call L type flags filters od j) = Inr (JObj (pg j))"
      using Suc.prems(1) j by (metis (no_types, lifting) Suc_leD append.assoc append_Cons append_Nil list.simps(9))
  qed
  have f': "\<forall>j. Suc i \<le> j \<and> j \<le> k \<longrightarrow>
          (if rd then map_of (pg j) ''items'' = Some (JList (xs j))
           else map_of (pg j) ''num'' = Some (JInt (c j)))
          \<and> map_of (pg j) ''more'' = Some (m j)"
    using Suc.prems(2) by (meson Suc_leD)
  have sums: "\<And>j. Suc i \<le> j \<Longrightarrow> N + cnt i + sum cnt {Suc i..j} = N + sum cnt {i..j}"
    by (simp add: sum.atLeast_Suc_atMost)
  have c': "\<forall>j. Suc i \<le> j \<and> j < k \<longrightarrow>
          truthy (m j) \<and> (\<forall>n. num = Some n \<longrightarrow> N + cnt i + sum cnt {Suc i..j} < n)"
    using Suc.prems(3) sums by (metis Suc_leD)
  have s': "\<not> truthy (m k) \<or> (\<exists>n. num = Some n \<and> n \<le> N + cnt i + sum cnt {Suc i..k})"
    using Suc.prems(4) sums[of k] ik by (metis Suc_leI)
  have IH: "get_loop L (recording srv) type flags filters num rd
           (AList.update ''page'' (JInt (int (Suc i))) od) (N + cnt i) ?ret' ?calls'
         = Some (Inr (case num of
                        None \<Rightarrow> ?ret' @ concat (map elems [Suc i..<Suc k])
                      | Some n \<Rightarrow> take (nat n) (?ret' @ concat (map elems [Suc i..<Suc k]))),
                 ?calls' @ map (page_call L type flags filters od) [Suc i..<Suc k])"
    using Suc.hyps(1)[OF d p' f' c' s'] ik by simp
  have up: "[i..<Suc k] = i # [Suc i..<Suc k]" using ik by (simp add: upt_from)
  have unf: "get_loop L (recording srv) type flags filters num rd
           (AList.update ''page'' (JInt (int i)) od) N ret calls
         = get_loop L (recording srv) type flags filters num rd
           (AList.update ''page'' (JInt (int (Suc i))) od) (N + cnt i) ?ret' ?calls'"
    by (subst get_loop.simps) (simp add: recording_def call step page_call_def[symmetric])
  have rhs: "(case num of
                None \<Rightarrow> ?ret' @ concat (map elems [Suc i..<Suc k])
              | Some n \<Rightarrow> take (nat n) (?ret' @ concat (map elems [Suc i..<Suc k])))
           = (case num of
                None \<Rightarrow> ret @ elems i @ concat (map elems [Suc i..<Suc k])
              | Some n \<Rightarrow> take (nat n) (ret @ elems i @ concat (map elems [Suc i..<Suc k])))"
    by (cases num) (simp_all add: take_take_append del: take_append)
  show ?case
    unfolding unf IH up rhs by (cases num) simp_all
qed

lemma initial_options_page:
  assumes "options \<noteq> []" and "json_loads L options = Some (JObj kvs)"
    and "map_of kvs ''page'' = None"
  shows "initial_options L options = Inr (kvs @ [(''page'', JInt 1)])"
  using assms by (simp add: initial_options_def setdefault_def)

lemma update_page_1:
  assumes "map_of kvs ''page'' = None"
  shows "AList.update ''page'' (JInt (int 1)) (kvs @ [(''page'', JInt 1)]) = kvs @ [(''page'', JInt 1)]"
  by (rule update_triv) (simp add: assms map_add_def)

lemma VNDBClient_get_run:
  fixes cnt :: "nat \<Rightarrow> int" and elems :: "nat \<Rightarrow> json list"
  assumes opts: "options \<noteq> []" "json_loads L options = Some (JObj kvs)"
      "map_of kvs ''page'' = None"
    and inst: "inst_get C = recording srv"
    and rd: "rd = (case ret_dict of None \<Rightarrow> self_ret_dict C | Some b \<Rightarrow> b)"
    and od: "od = kvs @ [(''page'', JInt 1)]"
    and cnt: "cnt = (\<lambda>l. if rd then int (length (xs l)) else c l)"
    and elems: "elems = (\<lambda>l. if rd then xs l else [JObj (pg l)])"
    and pages: "\<forall>j. 1 \<le> j \<and> j \<le> k \<longrightarrow>
          srv (calls @ map (page_call L type flags filters od) [1..<j])
              (page_call L type flags filters od j) = Inr (JObj (pg j))"
    and fields: "\<forall>j. 1 \<le> j \<and> j \<le> k \<longrightarrow>
          (if rd then map_of (pg j) ''items'' = Some (JList (xs j))
           else map_of (pg j) ''num'' = Some (JInt (c j)))
          \<and> map_of (pg j) ''more'' = Some (m j)"
    and cont: "\<forall>j. 1 \<le> j \<and> j < k \<longrightarrow>
          truthy (m j) \<and> (\<forall>n. num = Some n \<longrightarrow> sum cnt {1..j} < n)"
    and stop: "\<not> truthy (m k) \<or> (\<exists>n. num = Some n \<and> n \<le> sum cnt {1..k})"
    and nonneg: "\<forall>n. num = Some n \<longrightarrow> 0 \<le> n"
    and k: "1 \<le> k"
  shows "VNDBClient_get L C filters type flags num options ret_dict calls
         = Some (Inr (case num of
                        None \<Rightarrow> concat (map elems [1..<Suc k])
                      | Some n \<Rightarrow> take (nat n) (concat (map elems [1..<Suc k]))),
                 calls @ map (page_call L type flags filters od) [1..<Suc k])"
proof -
  have io: "initial_options L options = Inr od"
    unfolding od using opts by (rule initial_options_page)
  have od1: "AList.update ''page'' (JInt (int 1)) od = od"
    unfolding od using opts(3) by (rule update_page_1)
  have c0: "\<forall>j. 1 \<le> j \<and> j < k \<longrightarrow>
          truthy (m j) \<and> (\<forall>n. num = Some n \<longrightarrow> 0 + sum cnt {1..j} < n)"
    using cont by simp
  have s0: "\<not> truthy (m k) \<or> (\<exists>n. num = Some n \<and> n \<le> 0 + sum cnt {1..k})"
    using stop by simp
  have "get_loop L (recording srv) type flags filters num rd
           (AList.update ''page'' (JInt (int 1)) od) 0 [] calls
         = Some (Inr (case num of
                        None \<Rightarrow> [] @ concat (map elems [1..<Suc k])
                      | Some n \<Rightarrow> take (nat n) ([] @ concat (map elems [1..<Suc k]))),
                 calls @ map (page_call L type flags filters od) [1..<Suc k])"
    using cnt elems pages fields c0 s0 nonneg k by (rule get_loop_run)
  then have "get_loop L (recording srv) type flags filters num rd od 0 [] calls
         = Some (Inr (case num of
                        None \<Rightarrow> concat (map elems [1..<Suc k])
                      | Some n \<Rightarrow> take (nat n) (concat (map elems [1..<Suc k]))),
                 calls @ map (page_call L type flags filters od) [1..<Suc k])"
    unfolding od1 append_Nil .
  then show ?thesis
    by (simp only: VNDBClient_get_def io inst rd[symmetric] Let_def sum.case)
qed

lemma upt_1_4: "[Suc 0..<4] = [Suc 0, 2, 3]"
  by (simp add: upt_rec)

lemma upt_1_3: "[Suc 0..<3] = [Suc 0, 2]"
  by (simp add: upt_rec)

lemma example_page_call:
  \<open>page_call example_lib type flags filters [(''results'', JInt 25), (''page'', JInt 1)] (Suc 0)
     = (type, flags, filters, ''{"results": 25, "page": 1}'')\<close>
  \<open>page_call example_lib type flags filters [(''results'', JInt 25), (''page'', JInt 1)] 2
     = (type, flags, filters, ''{"results": 25, "page": 2}'')\<close>
  \<open>page_call example_lib type flags filters [(''results'', JInt 25), (''page'', JInt 1)] 3
     = (type, flags, filters, ''{"results": 25, "page": 3}'')\<close>
  by (simp_all add: page_call_def example_lib_def str_of_int_def)

lemma example_srv_pages:
  "example_srv calls
     (page_call example_lib type flags filters [(''results'', JInt 25), (''page'', JInt 1)] (Suc 0))
   = Inr (JObj (example_page (Suc 0)))"
  "example_srv calls
     (page_call example_lib type flags filters [(''results'', JInt 25), (''page'', JInt 1)] 2)
   = Inr (JObj (example_page 2))"
  "example_srv calls
     (page_call example_lib type flags filters [(''results'', JInt 25), (''page'', JInt 1)] 3)
   = Inr (JObj (example_page 3))"
  unfolding example_page_call by (simp_all add: example_srv_def example_loads_def)

lemma example_srv_page:
  assumes "1 \<le> j" and "j \<le> 3"
  shows "example_srv calls
           (page_call example_lib type flags filters [(''results'', JInt 25), (''page'', JInt 1)] j)
         = Inr (JObj (example_page j))"
proof -
  have "j = Suc 0 \<or> j = 2 \<or> j = 3" using assms by arith
  then show ?thesis
    using example_srv_pages[of calls type flags filters] by (elim disjE) (simp_all only:)
qed

text \<open>
  Claim C1: a fetch without a limit (\<open>num = None\<close>) whose options hold no page number
  (as the default \<open>{"results":25}\<close>) and that extracts the items. Let the instance
  answer the calls for the pages \<open>1, \<dots>, k\<close> with dicts \<open>pg j\<close> whose items are the lists
  \<open>xs j\<close>, where the pages before \<open>k\<close> have a true \<open>more\<close> and page \<open>k\<close> a false one. Then
  \<open>get\<close> returns, it has called the instance exactly for the pages \<open>1, 2, \<dots>, k\<close> in this
  order, and its result is \<open>xs 1 @ xs 2 @ \<dots> @ xs k\<close>.
\<close>

theorem VNDBClient_get_all_pages:
  assumes "options \<noteq> []" and "json_loads L options = Some (JObj kvs)"
    and "map_of kvs ''page'' = None"
    and "inst_get C = recording srv"
    and "case ret_dict of None \<Rightarrow> self_ret_dict C | Some b \<Rightarrow> b"
    and "1 \<le> k"
    and "\<forall>j. 1 \<le> j \<and> j \<le> k \<longrightarrow>
          srv (calls @ map (page_call L type flags filters (kvs @ [(''page'', JInt 1)])) [1..<j])
              (page_call L type flags filters (kvs @ [(''page'', JInt 1)]) j) = Inr (JObj (pg j))"
    and "\<forall>j. 1 \<le> j \<and> j \<le> k \<longrightarrow>
          map_of (pg j) ''items'' = Some (JList (xs j)) \<and> map_of (pg j) ''more'' = Some (m j)"
    and "\<forall>j. 1 \<le> j \<and> j < k \<longrightarrow> truthy (m j)"
    and "\<not> truthy (m k)"
  shows "VNDBClient_get L C filters type flags None options ret_dict calls
         = Some (Inr (concat (map xs [1..<Suc k])),
                 calls @ map (page_call L type flags filters (kvs @ [(''page'', JInt 1)]))
                           [1..<Suc k])"
proof -
  have rd: "True = (case ret_dict of None \<Rightarrow> self_ret_dict C | Some b \<Rightarrow> b)"
    using assms(5) by simp
  have fields: "\<forall>j. 1 \<le> j \<and> j \<le> k \<longrightarrow>
          (if True then map_of (pg j) ''items'' = Some (JList (xs j))
           else map_of (pg j) ''num'' = Some (JInt 0))
          \<and> map_of (pg j) ''more'' = Some (m j)"
    using assms(8) by simp
  have cont: "\<forall>j. 1 \<le> j \<and> j < k \<longrightarrow> truthy (m j) \<and>
          (\<forall>n. None = Some n \<longrightarrow> sum (\<lambda>l. if True then int (length (xs l)) else 0) {1..j} < n)"
    using assms(9) by simp
  have stop: "\<not> truthy (m k) \<or>
          (\<exists>n. None = Some n \<and> n \<le> sum (\<lambda>l. if True then int (length (xs l)) else 0) {1..k})"
    using assms(10) by simp
  have nonneg: "\<forall>n. None = Some n \<longrightarrow> 0 \<le> n" by simp
  have "VNDBClient_get L C filters type flags None options ret_dict calls
         = Some (Inr (case None :: int option of
                        None \<Rightarrow> concat (map (\<lambda>l. if True then xs l else [JObj (pg l)]) [1..<Suc k])
                      | Some n \<Rightarrow> take (nat n)
                          (concat (map (\<lambda>l. if True then xs l else [JObj (pg l)]) [1..<Suc k]))),
                 calls @ map (page_call L type flags filters (kvs @ [(''page'', JInt 1)]))
                           [1..<Suc k])"
    by (rule VNDBClient_get_run[where c = "\<lambda>l. 0", OF assms(1) assms(2) assms(3) assms(4) rd
          refl refl refl assms(7) fields cont stop nonneg assms(6)])
  then show ?thesis by simp
qed

text \<open>
  The server with three pages of two entries: the fetch asks for the pages 1, 2 and 3
  and returns the six entries in the order of the pages.
\<close>

theorem VNDBClient_get_all_pages_witness:
  \<open>VNDBClient_get example_lib example_client ''(id >= 1)'' ''vn'' ''basic'' None
       ''{"results":25}'' None []
   = Some (Inr [JObj [(''id'', JInt 1)], JObj [(''id'', JInt 2)], JObj [(''id'', JInt 3)],
                JObj [(''id'', JInt 4)], JObj [(''id'', JInt 5)], JObj [(''id'', JInt 6)]],
           [(''vn'', ''basic'', ''(id >= 1)'', ''{"results": 25, "page": 1}''),
            (''vn'', ''basic'', ''(id >= 1)'', ''{"results": 25, "page": 2}''),
            (''vn'', ''basic'', ''(id >= 1)'', ''{"results": 25, "page": 3}'')])\<close>
proof -
  have pages: "\<forall>j. 1 \<le> j \<and> j \<le> 3 \<longrightarrow>
      example_srv ([] @ map (page_call example_lib ''vn'' ''basic'' ''(id >= 1)''
                              ([(''results'', JInt 25)] @ [(''page'', JInt 1)])) [1..<j])
        (page_call example_lib ''vn'' ''basic'' ''(id >= 1)''
           ([(''results'', JInt 25)] @ [(''page'', JInt 1)]) j)
      = Inr (JObj (example_page j))"
    using example_srv_page by simp
  have fields: "\<forall>j. 1 \<le> j \<and> j \<le> 3 \<longrightarrow>
      map_of (example_page j) ''items'' = Some (JList (example_items j))
      \<and> map_of (example_page j) ''more'' = Some (JBool (j < 3))"
    by (simp add: example_page_def)
  have \<open>VNDBClient_get example_lib example_client ''(id >= 1)'' ''vn'' ''basic'' None
          ''{"results":25}'' None []
        = Some (Inr (concat (map example_items [1..<Suc 3])),
                [] @ map (page_call example_lib ''vn'' ''basic'' ''(id >= 1)''
                           ([(''results'', JInt 25)] @ [(''page'', JInt 1)])) [1..<Suc 3])\<close>
    by (rule VNDBClient_get_all_pages[where srv = example_srv and pg = example_page
          and m = "\<lambda>j. JBool (j < 3)", OF _ _ _ _ _ _ pages fields])
      (simp_all add: example_lib_def example_loads_def example_client_def truthy_def)
  then show ?thesis
    by (simp add: upt_1_4 example_page_call example_items_def)
qed

text \<open>
  Claim C2, amended: a fetch with a limit \<open>num = n\<close>, \<open>0 \<le> n\<close>. The count that is
  compared with \<open>n\<close> is the number of items of the pages fetched so far (\<open>len(d['items'])\<close>
  when the items are extracted, \<open>d['num']\<close> otherwise). Let \<open>k\<close> be the first page that has a
  false \<open>more\<close> or at which the count has reached \<open>n\<close>. Then \<open>get\<close> returns, it has called the
  instance exactly for the pages \<open>1, \<dots>, k\<close>, and its result is the first \<open>n\<close> elements of what
  it has accumulated: of the items of these pages in the order of the pages when the items
  are extracted, of the list of the page dicts themselves otherwise.
\<close>

theorem VNDBClient_get_limit:
  assumes "options \<noteq> []" and "json_loads L options = Some (JObj kvs)"
    and "map_of kvs ''page'' = None"
    and "inst_get C = recording srv"
    and "rd = (case ret_dict of None \<Rightarrow> self_ret_dict C | Some b \<Rightarrow> b)"
    and "0 \<le> n" and "1 \<le> k"
    and "\<forall>j. 1 \<le> j \<and> j \<le> k \<longrightarrow>
          srv (calls @ map (page_call L type flags filters (kvs @ [(''page'', JInt 1)])) [1..<j])
              (page_call L type flags filters (kvs @ [(''page'', JInt 1)]) j) = Inr (JObj (pg j))"
    and "\<forall>j. 1 \<le> j \<and> j \<le> k \<longrightarrow>
          (if rd then map_of (pg j) ''items'' = Some (JList (xs j))
           else map_of (pg j) ''num'' = Some (JInt (c j)))
          \<and> map_of (pg j) ''more'' = Some (m j)"
    and "\<forall>j. 1 \<le> j \<and> j < k \<longrightarrow>
          truthy (m j) \<and> (\<Sum>l = 1..j. if rd then int (length (xs l)) else c l) < n"
    and "\<not> truthy (m k) \<or> n \<le> (\<Sum>l = 1..k. if rd then int (length (xs l)) else c l)"
  shows "VNDBClient_get L C filters type flags (Some n) options ret_dict calls
         = Some (Inr (take (nat n)
                        (concat (map (\<lambda>j. if rd then xs j else [JObj (pg j)]) [1..<Suc k]))),
                 calls @ map (page_call L type flags filters (kvs @ [(''page'', JInt 1)]))
                           [1..<Suc k])"
proof -
  have cont: "\<forall>j. 1 \<le> j \<and> j < k \<longrightarrow> truthy (m j) \<and>
          (\<forall>n'. Some n = Some n' \<longrightarrow>
             sum (\<lambda>l. if rd then int (length (xs l)) else c l) {1..j} < n')"
    using assms(10) by simp
  have stop: "\<not> truthy (m k) \<or>
          (\<exists>n'. Some n = Some n' \<and>
             n' \<le> sum (\<lambda>l. if rd then int (length (xs l)) else c l) {1..k})"
    using assms(11) by simp
  have nonneg: "\<forall>n'. Some n = Some n' \<longrightarrow> 0 \<le> n'" using assms(6) by simp
  have "VNDBClient_get L C filters type flags (Some n) options ret_dict calls
         = Some (Inr (case Some n of
                        None \<Rightarrow> concat (map (\<lambda>l. if rd then xs l else [JObj (pg l)]) [1..<Suc k])
                      | Some n \<Rightarrow> take (nat n)
                          (concat (map (\<lambda>l. if rd then xs l else [JObj (pg l)]) [1..<Suc k]))),
                 calls @ map (page_call L type flags filters (kvs @ [(''page'', JInt 1)]))
                           [1..<Suc k])"
    by (rule VNDBClient_get_run[OF assms(1) assms(2) assms(3) assms(4) assms(5)
          refl refl refl assms(8) assms(9) cont stop nonneg assms(7)])
  then show ?thesis by simp
qed

text \<open>
  The same server and the limit 3: the fetch asks for the pages 1 and 2 only and returns
  the first three entries.
\<close>

theorem VNDBClient_get_limit_witness:
  \<open>VNDBClient_get example_lib example_client ''(id >= 1)'' ''vn'' ''basic'' (Some 3)
       ''{"results":25}'' None []
   = Some (Inr [JObj [(''id'', JInt 1)], JObj [(''id'', JInt 2)], JObj [(''id'', JInt 3)]],
           [(''vn'', ''basic'', ''(id >= 1)'', ''{"results": 25, "page": 1}''),
            (''vn'', ''basic'', ''(id >= 1)'', ''{"results": 25, "page": 2}'')])\<close>
proof -
  have pages: "\<forall>j. 1 \<le> j \<and> j \<le> 2 \<longrightarrow>
      example_srv ([] @ map (page_call example_lib ''vn'' ''basic'' ''(id >= 1)''
                              ([(''results'', JInt 25)] @ [(''page'', JInt 1)])) [1..<j])
        (page_call example_lib ''vn'' ''basic'' ''(id >= 1)''
           ([(''results'', JInt 25)] @ [(''page'', JInt 1)]) j)
      = Inr (JObj (example_page j))"
    using example_srv_page by simp
  have fields: "\<forall>j. 1 \<le> j \<and> j \<le> 2 \<longrightarrow>
      (if True then map_of (example_page j) ''items'' = Some (JList (example_items j))
       else map_of (example_page j) ''num'' = Some (JInt 2))
      \<and> map_of (example_page j) ''more'' = Some (JBool (j < 3))"
    by (simp add: example_page_def)
  have cont: "\<forall>j. 1 \<le> j \<and> j < 2 \<longrightarrow>
      truthy (JBool (j < 3))
      \<and> (\<Sum>l = 1..j. if True then int (length (example_items l)) else 2) < 3"
    by (simp add: truthy_def example_items_def)
  have \<open>VNDBClient_get example_lib example_client ''(id >= 1)'' ''vn'' ''basic'' (Some 3)
          ''{"results":25}'' None []
        = Some (Inr (take (nat 3)
                       (concat (map (\<lambda>j. if True then example_items j else [JObj (example_page j)])
                          [1..<Suc 2]))),
                [] @ map (page_call example_lib ''vn'' ''basic'' ''(id >= 1)''
                           ([(''results'', JInt 25)] @ [(''page'', JInt 1)])) [1..<Suc 2])\<close>
    by (rule VNDBClient_get_limit[where srv = example_srv and c = "\<lambda>j. 2"
          and m = "\<lambda>j. JBool (j < 3)", OF _ _ _ _ _ _ _ pages fields cont])
      (simp_all add: example_lib_def example_loads_def example_client_def example_items_def)
  then show ?thesis
    by (simp add: upt_1_3 example_page_call example_items_def)
qed

text \<open>
  Claim C2 as stated fails when the page dicts are returned (\<open>ret_dict=False\<close>): the limit
  3 is compared with the number of entries, but it cuts the list of pages, so the result
  holds the two pages that were fetched, with four entries.
\<close>

theorem VNDBClient_get_limit_raw_pages:
  \<open>VNDBClient_get example_lib example_client ''(id >= 1)'' ''vn'' ''basic'' (Some 3)
       ''{"results":25}'' (Some False) []
   = Some (Inr [JObj [(''num'', JInt 2), (''more'', JBool True),
                      (''items'', JList [JObj [(''id'', JInt 1)], JObj [(''id'', JInt 2)]])],
                JObj [(''num'', JInt 2), (''more'', JBool True),
                      (''items'', JList [JObj [(''id'', JInt 3)], JObj [(''id'', JInt 4)]])]],
           [(''vn'', ''basic'', ''(id >= 1)'', ''{"results": 25, "page": 1}''),
            (''vn'', ''basic'', ''(id >= 1)'', ''{"results": 25, "page": 2}'')])\<close>
proof -
  have pages: "\<forall>j. 1 \<le> j \<and> j \<le> 2 \<longrightarrow>
      example_srv ([] @ map (page_call example_lib ''vn'' ''basic'' ''(id >= 1)''
                              ([(''results'', JInt 25)] @ [(''page'', JInt 1)])) [1..<j])
        (page_call example_lib ''vn'' ''basic'' ''(id >= 1)''
           ([(''results'', JInt 25)] @ [(''page'', JInt 1)]) j)
      = Inr (JObj (example_page j))"
    using example_srv_page by simp
  have fields: "\<forall>j. 1 \<le> j \<and> j \<le> 2 \<longrightarrow>
      (if False then map_of (example_page j) ''items'' = Some (JList (example_items j))
       else map_of (example_page j) ''num'' = Some (JInt 2))
      \<and> map_of (example_page j) ''more'' = Some (JBool (j < 3))"
    by (simp add: example_page_def)
  have cont: "\<forall>j. 1 \<le> j \<and> j < 2 \<longrightarrow>
      truthy (JBool (j < 3))
      \<and> (\<forall>n. Some (3::int) = Some n \<longrightarrow>
           sum (\<lambda>l. if False then int (length (example_items l)) else 2) {1..j} < n)"
    by (simp add: truthy_def)
  have stop: "\<not> truthy (JBool (2 < (3::nat)))
      \<or> (\<exists>n. Some (3::int) = Some n
           \<and> n \<le> sum (\<lambda>l. if False then int (length (example_items l)) else 2) {1..2::nat})"
    by simp
  have \<open>VNDBClient_get example_lib example_client ''(id >= 1)'' ''vn'' ''basic'' (Some 3)
       ''{"results":25}'' (Some False) []
     = Some (Inr (case Some (3::int) of
                    None \<Rightarrow> concat (map (\<lambda>l. if False then example_items l else [JObj (example_page l)]) [1..<Suc 2])
                  | Some n \<Rightarrow> take (nat n)
                      (concat (map (\<lambda>l. if False then example_items l else [JObj (example_page l)]) [1..<Suc 2]))),
             [] @ map (page_call example_lib ''vn'' ''basic'' ''(id >= 1)''
                        ([(''results'', JInt 25)] @ [(''page'', JInt 1)])) [1..<Suc 2])\<close>
    by (rule VNDBClient_get_run[where srv = example_srv and kvs = "[(''results'', JInt 25)]"
          and rd = False and xs = example_items and c = "\<lambda>j. 2" and m = "\<lambda>j. JBool (j < 3)",
          OF _ _ _ _ _ refl refl refl pages fields cont stop])
      (simp_all add: example_lib_def example_loads_def example_client_def)
  then show ?thesis
    by (simp add: upt_1_3 example_page_call example_page_def example_items_def)
qed

section \<open>Properties of the searches\<close>

lemma getResponse_of_no_assert: "getResponse_of L res \<noteq> Inl AssertionError"
  by (auto simp: getResponse_of_def Let_def subscript_def split: option.splits sum.splits json.splits if_splits)

lemma getRawResponse_no_assert: "getRawResponse w \<noteq> Some (Inl AssertionError, w')"
  by (auto simp: getRawResponse_def decode_def Let_def split: option.splits prod.splits if_splits)

lemma getResponse_no_assert: "getResponse L w \<noteq> Some (Inl AssertionError, w')"
  using getRawResponse_no_assert getResponse_of_no_assert
  by (auto simp: getResponse_def split: option.splits prod.splits sum.splits)

lemma VNDB_get_no_assert: "VNDB_get L type flags filters options w \<noteq> Some (Inl AssertionError, w')"
  using getResponse_no_assert
  by (auto simp: VNDB_get_def Let_def split: option.splits prod.splits sum.splits)

lemma bnd_no_assert:
  "r \<noteq> Inl AssertionError \<Longrightarrow> (\<And>x. f x \<noteq> Inl AssertionError) \<Longrightarrow> bnd r f \<noteq> Inl AssertionError"
  by (cases r) (simp_all add: bnd_def)

lemma subscript_no_assert: "subscript x k \<noteq> Inl AssertionError"
  by (simp add: subscript_def split: json.splits option.splits)

lemma as_int_no_assert: "as_int x \<noteq> Inl AssertionError"
  by (simp add: as_int_def split: json.splits)

lemma py_len_no_assert: "py_len x \<noteq> Inl AssertionError"
  by (simp add: py_len_def split: json.splits)

lemma py_iter_no_assert: "py_iter x \<noteq> Inl AssertionError"
  by (simp add: py_iter_def split: json.splits)

lemma bnd_eq_Inl: "(bnd r f = Inl e) = (r = Inl e \<or> (\<exists>x. r = Inr x \<and> f x = Inl e))"
  by (cases r) (simp_all add: bnd_def)

lemma get_step_no_assert: "get_step num rd od N ret d \<noteq> Inl AssertionError"
  by (auto simp: get_step_def Let_def bnd_eq_Inl subscript_no_assert as_int_no_assert
      py_len_no_assert py_iter_no_assert split: option.splits if_splits)

lemma initial_options_no_assert: "initial_options L options \<noteq> Inl AssertionError"
  by (auto simp: initial_options_def bnd_eq_Inl split: option.splits json.splits if_splits)

lemma get_loop_no_assert:
  assumes "get_loop L iget type flags filters num rd od N ret w = Some y"
    and "\<And>t f q opts v v'. iget t f q opts v \<noteq> Some (Inl AssertionError, v')"
  shows "fst y \<noteq> Inl AssertionError"
proof -
  have "(\<forall>t f q opts v v'. iget t f q opts v \<noteq> Some (Inl AssertionError, v'))
        \<longrightarrow> fst y \<noteq> Inl AssertionError"
    by (rule get_loop.raw_induct[where P = "\<lambda>L iget type flags filters num rd od N ret w y.
          (\<forall>t f q opts v v'. iget t f q opts v \<noteq> Some (Inl AssertionError, v'))
          \<longrightarrow> fst y \<noteq> Inl AssertionError", OF _ assms(1)])
      (auto simp: get_step_no_assert split: option.splits prod.splits sum.splits if_splits)
  then show ?thesis using assms(2) by blast
qed

lemma VNDBClient_get_no_assert:
  "VNDBClient_get L (VNDB_client L) filters type flags num options ret_dict w
     \<noteq> Some (Inl AssertionError, w')"
proof
  assume a: "VNDBClient_get L (VNDB_client L) filters type flags num options ret_dict w
     = Some (Inl AssertionError, w')"
  show False
  proof (cases "initial_options L options")
    case (Inl e)
    then show False using a initial_options_no_assert[of L options]
      by (simp add: VNDBClient_get_def)
  next
    case (Inr od)
    then have "get_loop L (VNDB_get L) type flags filters num
        (case ret_dict of None \<Rightarrow> True | Some b \<Rightarrow> b) od 0 [] w = Some (Inl AssertionError, w')"
      using a by (cases ret_dict) (simp_all add: VNDBClient_get_def VNDB_client_def)
    then have "fst (Inl AssertionError :: error + json list, w') \<noteq> Inl AssertionError"
      by (rule get_loop_no_assert) (rule VNDB_get_no_assert)
    then show False by simp
  qed
qed


text \<open>
  Claim C10: \<open>search\<close> reaches \<open>get\<close> exactly for the types \<open>vn\<close>, \<open>producer\<close>,
  \<open>character\<close> and \<open>staff\<close>, with the filter \<open>({method}"{pattern}")\<close>. For any other
  type it raises \<open>AssertionError\<close> and leaves the instance as it was, so no command has
  been sent and nothing has been cached. On a \<open>VNDB\<close> instance an \<open>AssertionError\<close>
  comes from nowhere else: \<open>search\<close> raises it if and only if the type is not one of
  the four. \<open>search_release\<close> does not go through \<open>search\<close>: it calls \<open>get\<close> with the
  type \<open>release\<close>.
\<close>

theorem search_type_assertion:
  \<open>search L C pattern type flags num options ret_dict method w
     = (if type = ''vn'' \<or> type = ''producer'' \<or> type = ''character'' \<or> type = ''staff''
        then VNDBClient_get L C
               (''('' @ (case method of None \<Rightarrow> ''search~'' | Some s \<Rightarrow> s) @ ''"''
                  @ py_str L pattern @ ''")'')
               type flags num options ret_dict w
        else Some (Inl AssertionError, w))
   \<and> search L C pattern ''release'' flags num options ret_dict method w
       = Some (Inl AssertionError, w)
   \<and> ((search L (VNDB_client L) pattern type flags num options ret_dict method v
          = Some (Inl AssertionError, v'))
        = (type \<notin> {''vn'', ''producer'', ''character'', ''staff''} \<and> v' = v))
   \<and> search_release L C pattern flags num options ret_dict w
       = andthen (VNDBClient_get L C
                    (if is_int pattern then ''(vn="'' @ py_str L pattern @ ''")''
                     else ''(title~"'' @ py_str L pattern @ ''")'')
                    ''release'' flags num options ret_dict)
           (\<lambda>ens. lift (map_err (represent_en L) ens)) w\<close>
proof (intro conjI)
  show \<open>search L C pattern type flags num options ret_dict method w
     = (if type = ''vn'' \<or> type = ''producer'' \<or> type = ''character'' \<or> type = ''staff''
        then VNDBClient_get L C
               (''('' @ (case method of None \<Rightarrow> ''search~'' | Some s \<Rightarrow> s) @ ''"''
                  @ py_str L pattern @ ''")'')
               type flags num options ret_dict w
        else Some (Inl AssertionError, w))\<close>
    by (simp add: search_def Let_def)
  show "search L C pattern ''release'' flags num options ret_dict method w
       = Some (Inl AssertionError, w)"
    by (simp add: search_def Let_def)
  show "(search L (VNDB_client L) pattern type flags num options ret_dict method v
          = Some (Inl AssertionError, v'))
        = (type \<notin> {''vn'', ''producer'', ''character'', ''staff''} \<and> v' = v)"
    using VNDBClient_get_no_assert[of L _ type flags num options ret_dict v v']
    by (auto simp: search_def Let_def)
  show \<open>search_release L C pattern flags num options ret_dict w
       = andthen (VNDBClient_get L C
                    (if is_int pattern then ''(vn="'' @ py_str L pattern @ ''")''
                     else ''(title~"'' @ py_str L pattern @ ''")'')
                    ''release'' flags num options ret_dict)
           (\<lambda>ens. lift (map_err (represent_en L) ens)) w\<close>
    by (simp add: search_release_def Let_def)
qed

text \<open>
  A search of type \<open>release\<close> on a new \<open>VNDB\<close> object raises \<open>AssertionError\<close>; nothing
  is sent. The same search of type \<open>vn\<close> sends a \<open>get\<close> command.
\<close>

theorem search_type_assertion_witness:
  \<open>search example_lib (VNDB_client example_lib) (JStr ''a'') ''release'' ''basic'' None
       ''{"results":25}'' None None (fresh [])
     = Some (Inl AssertionError, fresh [])
   \<and> sock_sent (fresh []) = []
   \<and> search example_lib (VNDB_client example_lib) (JStr ''a'') ''vn'' ''basic'' None
       ''{"results":25}'' None None (fresh [])
     = VNDBClient_get example_lib (VNDB_client example_lib) ''(search~"a")'' ''vn'' ''basic'' None
         ''{"results":25}'' None (fresh [])\<close>
  using search_type_assertion[of example_lib "VNDB_client example_lib" "JStr ''a''" "''release''"
      "''basic''" None \<open>''{"results":25}''\<close> None None "fresh []" "fresh []" "fresh []"]
    search_type_assertion[of example_lib "VNDB_client example_lib" "JStr ''a''" "''vn''"
      "''basic''" None \<open>''{"results":25}''\<close> None None "fresh []" "fresh []" "fresh []"]
  by (simp add: py_str_def fresh_def)

section \<open>Properties of the composed search\<close>



lemma setitem_Inr:
  assumes "setitem x k v = Inr y"
  obtains kvs where "x = JObj kvs" and "y = JObj (AList.update k v kvs)"
  using assms by (auto simp: setitem_def split: json.splits)






lemma in_set_remove1_other: "x \<noteq> y \<Longrightarrow> (x \<in> set (remove1 y xs)) = (x \<in> set xs)"
  by simp




end
